theory Spec2Isabelle
  imports Complex_Main "HOL-Library.Word"
begin

section \<open>UpdateChecker (update\_manager.py)\<close>

text \<open>
  A release and its assets as the GitHub API gives them: a key that may be missing from
  the JSON object is an option, and a key that is present has the type of the API's schema.

  The outcome of one \<^verbatim>\<open>requests.get\<close> is a response carrying its status code and what
  \<^verbatim>\<open>response.json()\<close> gives (\<open>Inl\<close> the message of the exception it raises), or one of
  the exceptions of \<^verbatim>\<open>requests.exceptions\<close> with its message.
\<close>

record asset =
  asset_name :: "string option"
  browser_download_url :: "string option"
  asset_size :: "int option"

record release_data =
  tag_name :: "string option"
  release_name :: "string option"
  body :: "string option"
  published_at :: "string option"
  assets :: "asset list option"
  zipball_url :: "string option"

datatype http_result =
    Response int "string + release_data"
  | ConnectionError string
  | Timeout string
  | RequestException string

record update_info =
  info_version :: string
  info_name :: string
  info_body :: string
  info_published_at :: string
  info_download_url :: "string option"
  info_size :: int

datatype signal =
    update_available update_info
  | update_not_available
  | error_occurred string

text \<open>\<^verbatim>\<open>dict.get(key, default)\<close> on a field that may be absent.\<close>

definition get_default :: "'a option \<Rightarrow> 'a \<Rightarrow> 'a" where
  "get_default field dflt = (case field of None \<Rightarrow> dflt | Some v \<Rightarrow> v)"

text \<open>\<^verbatim>\<open>str.lstrip('v')\<close> removes every leading \<open>v\<close>.\<close>

definition lstrip_v :: "string \<Rightarrow> string" where
  "lstrip_v s = dropWhile (\<lambda>c. c = CHR ''v'') s"

text \<open>\<^verbatim>\<open>str.lower()\<close> on the ASCII letters (asset names are file names).\<close>

definition lower_char :: "char \<Rightarrow> char" where
  "lower_char c =
     (let n = (of_char c :: nat)
      in if 65 \<le> n \<and> n \<le> 90 then char_of (n + 32) else c)"

definition lower :: "string \<Rightarrow> string" where
  "lower s = map lower_char s"

text \<open>\<^verbatim>\<open>ext in name\<close>: the substring test of Python strings.\<close>

fun starts_with :: "string \<Rightarrow> string \<Rightarrow> bool" where
  "starts_with [] s = True"
| "starts_with (p # ps) [] = False"
| "starts_with (p # ps) (c # cs) = (p = c \<and> starts_with ps cs)"

fun str_in :: "string \<Rightarrow> string \<Rightarrow> bool" where
  "str_in ext [] = (ext = [])"
| "str_in ext (c # cs) = (starts_with ext (c # cs) \<or> str_in ext cs)"

definition is_windows_asset :: "asset \<Rightarrow> bool" where
  "is_windows_asset a =
     (let name = lower (get_default (asset_name a) '''')
      in list_ex (\<lambda>ext. str_in ext name) [''.exe'', ''.zip'', ''windows'', ''win''])"

text \<open>\<^verbatim>\<open>str\<close> of an integer, as the f-string of the HTTP status prints it.\<close>

fun str_nat :: "nat \<Rightarrow> string" where
  "str_nat n =
     (if n < 10 then [char_of (48 + n)] else str_nat (n div 10) @ [char_of (48 + n mod 10)])"

definition str_int :: "int \<Rightarrow> string" where
  "str_int i = (if i < 0 then CHR ''-'' # str_nat (nat (- i)) else str_nat (nat i))"

definition test_urls :: "string list" where
  "test_urls =
     [''https://www.google.com'', ''https://www.cloudflare.com'',
      ''https://httpbin.org/get'', ''https://api.github.com'']"

text \<open>
  \<^verbatim>\<open>_test_internet_connection\<close>: the first endpoint answering 200 decides; an endpoint
  that raises a request exception or answers another status is skipped.
\<close>

fun probe_urls :: "(string \<Rightarrow> http_result) \<Rightarrow> string list \<Rightarrow> bool" where
  "probe_urls http_get [] = False"
| "probe_urls http_get (url # urls) =
     (case http_get url of
        Response status_code b \<Rightarrow> (if status_code = 200 then True else probe_urls http_get urls)
      | _ \<Rightarrow> probe_urls http_get urls)"

definition test_internet_connection :: "(string \<Rightarrow> http_result) \<Rightarrow> bool" where
  "test_internet_connection http_get = probe_urls http_get test_urls"

fun get_download_url_loop :: "asset list \<Rightarrow> string option \<Rightarrow> string option" where
  "get_download_url_loop [] fallback = fallback"
| "get_download_url_loop (a # as) fallback =
     (if is_windows_asset a then browser_download_url a else get_download_url_loop as fallback)"

definition get_download_url :: "release_data \<Rightarrow> string option" where
  "get_download_url rd = get_download_url_loop (get_default (assets rd) []) (zipball_url rd)"

fun get_download_size_loop :: "asset list \<Rightarrow> int" where
  "get_download_size_loop [] = 0"
| "get_download_size_loop (a # as) =
     (if is_windows_asset a then get_default (asset_size a) 0 else get_download_size_loop as)"

definition get_download_size :: "release_data \<Rightarrow> int" where
  "get_download_size rd = get_download_size_loop (get_default (assets rd) [])"

definition github_api_url :: "string \<Rightarrow> string" where
  "github_api_url github_repo =
     ''https://api.github.com/repos/'' @ github_repo @ ''/releases/latest''"

definition make_update_info :: "release_data \<Rightarrow> string \<Rightarrow> update_info" where
  "make_update_info rd latest_version =
     \<lparr> info_version = latest_version,
       info_name = get_default (release_name rd) (''Version '' @ latest_version),
       info_body = get_default (body rd) ''No release notes available'',
       info_published_at = get_default (published_at rd) '''',
       info_download_url = get_download_url rd,
       info_size = get_download_size rd \<rparr>"

text \<open>
  The version comparison of \<^verbatim>\<open>run\<close>. \<^verbatim>\<open>packaging.version.parse\<close> belongs to a library
  outside the repository and is a parameter: it gives a version of an ordered type or
  raises (\<open>Inl\<close>, with the exception's message). The left operand is parsed first.
\<close>

definition compare_versions ::
  "(string \<Rightarrow> string + 'v::ord) \<Rightarrow> release_data \<Rightarrow> string \<Rightarrow> string \<Rightarrow> signal list"
where
  "compare_versions parse rd latest_version current_version =
     (case parse latest_version of
        Inl e \<Rightarrow> [error_occurred (''Version comparison error: '' @ e)]
      | Inr latest \<Rightarrow>
          (case parse current_version of
             Inl e \<Rightarrow> [error_occurred (''Version comparison error: '' @ e)]
           | Inr current \<Rightarrow>
               (if latest > current
                then [update_available (make_update_info rd latest_version)]
                else [update_not_available])))"

text \<open>
  \<^verbatim>\<open>UpdateChecker.run\<close>; the result is the list of the signals emitted, in order.
\<close>

definition run ::
  "(string \<Rightarrow> string + 'v::ord) \<Rightarrow> (string \<Rightarrow> http_result) \<Rightarrow> string \<Rightarrow> string \<Rightarrow> signal list"
where
  "run parse http_get github_repo current_version =
     (if \<not> test_internet_connection http_get then [error_occurred ''No internet connection'']
      else
        (case http_get (github_api_url github_repo) of
           ConnectionError e \<Rightarrow> [error_occurred ''No internet connection'']
         | Timeout e \<Rightarrow> [error_occurred ''GitHub API timeout - please try again'']
         | RequestException e \<Rightarrow> [error_occurred (''Failed to connect to GitHub: '' @ e)]
         | Response status_code json \<Rightarrow>
             (if status_code = 404
              then [error_occurred ''Repository not found - please check the repository URL'']
              else if status_code = 403
              then [error_occurred ''API rate limit exceeded - please try again later'']
              else if status_code \<noteq> 200
              then [error_occurred (''GitHub API error: HTTP '' @ str_int status_code)]
              else
                (case json of
                   Inl e \<Rightarrow> [error_occurred (''Unexpected error: '' @ e)]
                 | Inr rd \<Rightarrow>
                     (let latest_version = lstrip_v (get_default (tag_name rd) '''')
                      in if latest_version = []
                         then [error_occurred ''Invalid version information from GitHub'']
                         else compare_versions parse rd latest_version current_version)))))"

section \<open>SystemTests (system\_tests.py): what the workers share\<close>

text \<open>
  Every worker runs in a thread of its own and writes into the \<^verbatim>\<open>results\<close> dictionary that
  the caller already holds. The model passes the dictionary as a record and keeps, in
  \<open>trace\<close>, the order of the worker's effects: each write of \<^verbatim>\<open>results['progress']\<close> and
  \<^verbatim>\<open>results['status']\<close>, each call of the callback with the progress and status it sees,
  each \<^verbatim>\<open>time.sleep\<close>, and the reads and writes of the device under test.

  \<^verbatim>\<open>self.is_testing\<close> is shared with the thread that calls \<^verbatim>\<open>stop_all_tests\<close>; the value
  the worker finds at each read comes from the environment. Clock readings, sensor values
  and random bytes come from the environment as well. The callback is the caller's
  function; it is taken to return normally.

  Python computes \<^verbatim>\<open>int(a / b * k)\<close> on floats; the model takes the quotient as the exact
  rational number and truncates it as \<^verbatim>\<open>int\<close> does.
\<close>

datatype status = Running | Completed | Stopped | Error

datatype effect =
    SetProgress int
  | SetStatus status
  | Callback "int option" status
  | Sleep rat
  | ClearTesting
  | Poll nat
  | Sample "bool option" int
  | Allocate nat
  | Verify nat
  | WriteChunk nat
  | ReadChunk nat

record results =
  progress :: "int option"
  status :: status
  trace :: "effect list"

definition emit :: "effect \<Rightarrow> 'a results_scheme \<Rightarrow> 'a results_scheme" where
  "emit e r = r\<lparr>trace := trace r @ [e]\<rparr>"

definition set_progress :: "int \<Rightarrow> 'a results_scheme \<Rightarrow> 'a results_scheme" where
  "set_progress p r = emit (SetProgress p) (r\<lparr>progress := Some p\<rparr>)"

definition set_status :: "status \<Rightarrow> 'a results_scheme \<Rightarrow> 'a results_scheme" where
  "set_status s r = emit (SetStatus s) (r\<lparr>status := s\<rparr>)"

text \<open>\<^verbatim>\<open>if callback: callback(results)\<close>\<close>

definition call_back :: "bool \<Rightarrow> 'a results_scheme \<Rightarrow> 'a results_scheme" where
  "call_back callback r = (if callback then emit (Callback (progress r) (status r)) r else r)"

definition sleep :: "rat \<Rightarrow> 'a results_scheme \<Rightarrow> 'a results_scheme" where
  "sleep seconds r = emit (Sleep seconds) r"

text \<open>\<^verbatim>\<open>results['status'] = 'Completed' if self.is_testing else 'Stopped'\<close>\<close>

definition final_status :: "bool \<Rightarrow> status" where
  "final_status is_testing = (if is_testing then Completed else Stopped)"

text \<open>\<^verbatim>\<open>int(x)\<close> truncates towards zero.\<close>

definition py_int :: "rat \<Rightarrow> int" where
  "py_int q = (if 0 \<le> q then \<lfloor>q\<rfloor> else \<lceil>q\<rceil>)"

text \<open>\<^verbatim>\<open>a / b\<close> on integers: true division, which raises when \<open>b\<close> is zero.\<close>

definition true_div :: "int \<Rightarrow> int \<Rightarrow> string + rat" where
  "true_div a b = (if b = 0 then Inl ''division by zero'' else Inr (of_int a / of_int b))"

text \<open>
  A loop or a phase of a worker ends normally (\<open>Inr\<close>) or with an exception on its way
  to the worker's handler (\<open>Inl\<close>, with the exception's message); either way it leaves
  the dictionary in some state.
\<close>

fun outcome_state :: "(string \<times> 'a) + 'a \<Rightarrow> 'a" where
  "outcome_state (Inl (e, r)) = r"
| "outcome_state (Inr r) = r"

section \<open>The charging test\<close>

record battery =
  power_plugged :: "bool option"
  percent :: int

text \<open>
  \<^verbatim>\<open>psutil.sensors_battery()\<close> returns a battery, returns \<^verbatim>\<open>None\<close>, or raises.
  \<open>power_plugged\<close> is \<^verbatim>\<open>True\<close>, \<^verbatim>\<open>False\<close> or \<^verbatim>\<open>None\<close> (unknown); \<open>percent\<close> is the
  integer percentage that Windows reports.
\<close>

datatype sensor_result = Battery battery | NoBattery | SensorError string

record charging_event =
  ev_timestamp :: rat
  ev_event :: string
  ev_battery_level :: int
  ev_charging_state :: "bool option"

record level_change =
  lc_timestamp :: rat
  lc_old_level :: int
  lc_new_level :: int
  lc_change :: int
  lc_charging :: "bool option"

record charging_env =
  ch_callback :: bool
  first_sensor :: sensor_result
  loop_testing :: "nat \<Rightarrow> bool"
  loop_sensor :: "nat \<Rightarrow> sensor_result"
  loop_datetime :: "nat \<Rightarrow> rat"
  loop_time :: "nat \<Rightarrow> rat"
  ch_end_testing :: bool
  ch_end_datetime :: rat

text \<open>
  The \<^verbatim>\<open>results\<close> dictionary of \<^verbatim>\<open>charging_test\<close>, followed by the three local variables
  of the worker's loop.
\<close>

record charging_results = results +
  battery_support :: bool
  initial_charging_state :: "bool option"
  initial_battery_level :: "int option"
  charging_events :: "charging_event list"
  battery_level_changes :: "level_change list"
  errors :: "string list"
  instructions_given :: bool
  current_charging_state :: "bool option option"
  current_battery_level :: "int option"
  charging_events_detected :: "nat option"
  battery_level_changes_detected :: "nat option"
  charging_port_status :: "string option"
  battery_charging_status :: "string option"
  ch_end_time :: "rat option"
  last_charging_state :: "bool option"
  last_battery_level :: int
  last_callback_time :: rat

definition charging_initial :: charging_results where
  "charging_initial =
     \<lparr> progress = Some 0, status = Running, trace = [],
       battery_support = False, initial_charging_state = None, initial_battery_level = None,
       charging_events = [], battery_level_changes = [], errors = [],
       instructions_given = False, current_charging_state = None,
       current_battery_level = None, charging_events_detected = None,
       battery_level_changes_detected = None, charging_port_status = None,
       battery_charging_status = None, ch_end_time = None,
       last_charging_state = None, last_battery_level = 0, last_callback_time = 0 \<rparr>"

definition monitor_duration :: int where
  "monitor_duration = 60"

definition check_interval :: int where
  "check_interval = 2"

definition checks_total :: int where
  "checks_total = monitor_duration div check_interval"

text \<open>\<^verbatim>\<open>'plugged_in' if current_charging else 'unplugged'\<close>: \<^verbatim>\<open>None\<close> is falsy.\<close>

definition event_label :: "bool option \<Rightarrow> string" where
  "event_label current_charging =
     (if current_charging = Some True then ''plugged_in'' else ''unplugged'')"

definition detect_charging_change ::
  "rat \<Rightarrow> bool option \<Rightarrow> int \<Rightarrow> charging_results \<Rightarrow> charging_results" where
  "detect_charging_change timestamp current_charging current_level r =
     (if current_charging \<noteq> last_charging_state r
      then r\<lparr> charging_events := charging_events r @
                  [\<lparr> ev_timestamp = timestamp, ev_event = event_label current_charging,
                     ev_battery_level = current_level,
                     ev_charging_state = current_charging \<rparr>],
               last_charging_state := current_charging \<rparr>
      else r)"

definition track_level_change ::
  "rat \<Rightarrow> bool option \<Rightarrow> int \<Rightarrow> charging_results \<Rightarrow> charging_results" where
  "track_level_change timestamp current_charging current_level r =
     (if \<bar>current_level - last_battery_level r\<bar> \<ge> 1
      then r\<lparr> battery_level_changes := battery_level_changes r @
                  [\<lparr> lc_timestamp = timestamp, lc_old_level = last_battery_level r,
                     lc_new_level = current_level,
                     lc_change = current_level - last_battery_level r,
                     lc_charging = current_charging \<rparr>],
               last_battery_level := current_level \<rparr>
      else r)"

text \<open>The throttled callback of the loop: at most one call a second.\<close>

definition throttled_callback :: "bool \<Rightarrow> rat \<Rightarrow> charging_results \<Rightarrow> charging_results" where
  "throttled_callback callback current_time r =
     (if callback \<and> current_time - last_callback_time r \<ge> 1
      then (call_back True r)\<lparr>last_callback_time := current_time\<rparr>
      else r)"

text \<open>
  One pass through the body of the monitoring loop, after the test of \<^verbatim>\<open>self.is_testing\<close>.
  When the sensor gives no battery or raises, the first two statements of the
  \<^verbatim>\<open>try\<close> block raise and the handler appends the message; nothing else of the body runs.
\<close>

definition charging_iteration :: "charging_env \<Rightarrow> nat \<Rightarrow> charging_results \<Rightarrow> charging_results"
where
  "charging_iteration env check r0 =
     (let r = emit (Poll check) r0 in
      case loop_sensor env check of
        SensorError e \<Rightarrow> r\<lparr>errors := errors r @ [''Error during monitoring: '' @ e]\<rparr>
      | NoBattery \<Rightarrow>
          r\<lparr>errors := errors r @
             [''Error during monitoring: '' @
              [CHR 0x27] @ ''NoneType'' @ [CHR 0x27] @ '' object has no attribute '' @
              [CHR 0x27] @ ''power_plugged'' @ [CHR 0x27]]\<rparr>
      | Battery b \<Rightarrow>
          (let current_charging = power_plugged b;
               current_level = percent b;
               timestamp = loop_datetime env check;
               current_time = loop_time env check;
               r = emit (Sample current_charging current_level) r;
               r = detect_charging_change timestamp current_charging current_level r;
               r = track_level_change timestamp current_charging current_level r
           in case true_div (int check + 1) checks_total of
                Inl e \<Rightarrow> r\<lparr>errors := errors r @ [''Error during monitoring: '' @ e]\<rparr>
              | Inr q \<Rightarrow>
                  (let r = set_progress (py_int (q * 100)) r;
                       r = r\<lparr> current_charging_state := Some current_charging,
                                current_battery_level := Some current_level \<rparr>;
                       r = throttled_callback (ch_callback env) current_time r
                   in sleep (of_int check_interval) r)))"

text \<open>\<^verbatim>\<open>for check in range(checks_total)\<close>, left by \<^verbatim>\<open>break\<close> when the test was stopped.\<close>

fun charging_loop :: "charging_env \<Rightarrow> nat list \<Rightarrow> charging_results \<Rightarrow> charging_results" where
  "charging_loop env [] r = r"
| "charging_loop env (check # checks) r =
     (if \<not> loop_testing env check then r
      else charging_loop env checks (charging_iteration env check r))"

definition charging_increases :: "level_change list \<Rightarrow> level_change list" where
  "charging_increases changes =
     filter (\<lambda>change. lc_charging change = Some True \<and> lc_change change > 0) changes"

definition analyze_results :: "charging_env \<Rightarrow> charging_results \<Rightarrow> charging_results" where
  "analyze_results env r0 =
     (let r = r0\<lparr> charging_events_detected := Some (length (charging_events r0)),
                  battery_level_changes_detected := Some (length (battery_level_changes r0)) \<rparr>;
          r = r\<lparr> charging_port_status := Some
                  (if length (charging_events r) > 0
                   then ''Working - charging state changes detected''
                   else ''No changes detected - please plug/unplug charger during test'') \<rparr>;
          r = r\<lparr> battery_charging_status := Some
                  (if length (battery_level_changes r) > 0
                   then (if charging_increases (battery_level_changes r) \<noteq> []
                         then ''Working - battery level increased while charging''
                         else ''Partial - state changes detected but no charging increase'')
                   else ''No battery level changes detected'') \<rparr>;
          r = set_progress 100 r;
          r = r\<lparr>ch_end_time := Some (ch_end_datetime env)\<rparr>;
          r = set_status (final_status (ch_end_testing env)) r;
          r = emit ClearTesting r
      in call_back (ch_callback env) r)"

text \<open>
  The statements between the detection of the battery and the loop: the initial state is
  written into the dictionary, the instructions are shown once, and the loop's variables
  are set.
\<close>

definition charging_start :: "charging_env \<Rightarrow> battery \<Rightarrow> charging_results" where
  "charging_start env b =
     (let r = charging_initial\<lparr> battery_support := True,
                                initial_charging_state := power_plugged b,
                                initial_battery_level := Some (percent b) \<rparr>;
          r = (if \<not> instructions_given r
               then call_back (ch_callback env) (r\<lparr>instructions_given := True\<rparr>)
               else r)
      in r\<lparr> last_charging_state := initial_charging_state r,
             last_battery_level := percent b,
             last_callback_time := 0 \<rparr>)"

definition charging_test_worker :: "charging_env \<Rightarrow> charging_results" where
  "charging_test_worker env =
     (case first_sensor env of
        NoBattery \<Rightarrow>
          (let r = charging_initial\<lparr>errors := errors charging_initial @
                     [''No battery detected - this test requires a laptop/device with battery'']\<rparr>;
               r = r\<lparr>battery_support := False\<rparr>;
               r = set_status Completed r;
               r = set_progress 100 r;
               r = emit ClearTesting r
           in call_back (ch_callback env) r)
      | SensorError e \<Rightarrow>
          (let r = charging_initial\<lparr>errors := errors charging_initial @
                     [''Error detecting battery: '' @ e]\<rparr>;
               r = r\<lparr>battery_support := False\<rparr>;
               r = set_status Error r;
               r = emit ClearTesting r
           in call_back (ch_callback env) r)
      | Battery b \<Rightarrow>
          analyze_results env (charging_loop env [0..<nat checks_total] (charging_start env b)))"

section \<open>The memory test\<close>

record memory_env =
  mem_callback :: bool
  alloc_testing :: "nat \<Rightarrow> bool"
  alloc_error :: "nat \<Rightarrow> string option"
  getrandbits :: "nat \<Rightarrow> nat \<Rightarrow> 8 word"
  virtual_memory :: "nat \<Rightarrow> rat \<times> rat"
  verify_testing :: "nat \<Rightarrow> bool"
  checksum_error :: "nat \<Rightarrow> bool"
  mem_end_testing :: bool
  mem_end_datetime :: rat

record memory_usage_sample =
  mu_time :: nat
  mu_used_percent :: rat
  mu_used_gb :: rat

text \<open>
  The \<^verbatim>\<open>results\<close> dictionary of \<^verbatim>\<open>memory_test\<close> (it has no \<^verbatim>\<open>'progress'\<close> key until the
  worker writes one), followed by the worker's list \<^verbatim>\<open>memory_blocks\<close>.
\<close>

record memory_results = results +
  test_size_mb :: int
  blocks_tested :: int
  errors_found :: int
  memory_usage :: "memory_usage_sample list"
  mem_end_time :: "rat option"
  mem_error :: "string option"
  memory_blocks :: "8 word list list"

definition memory_initial :: "int \<Rightarrow> memory_results" where
  "memory_initial size_mb =
     \<lparr> progress = None, status = Running, trace = [],
       test_size_mb = size_mb, blocks_tested = 0, errors_found = 0, memory_usage = [],
       mem_end_time = None, mem_error = None, memory_blocks = [] \<rparr>"

definition block_size :: nat where
  "block_size = 1024 * 1024"

text \<open>\<^verbatim>\<open>sum(block)\<close> of a bytearray.\<close>

definition sum_block :: "8 word list \<Rightarrow> int" where
  "sum_block block = sum_list (map uint block)"

text \<open>
  The body of the allocation loop for block \<open>i\<close>, after the test of \<^verbatim>\<open>self.is_testing\<close>.
  \<open>Inl\<close> is an exception that leaves the loop for the handler of the worker, with the
  dictionary as it is at that point.
\<close>

definition allocate_block ::
  "memory_env \<Rightarrow> int \<Rightarrow> nat \<Rightarrow> memory_results \<Rightarrow> (string \<times> memory_results) + memory_results"
where
  "allocate_block env num_blocks i r0 =
     (case alloc_error env i of
        Some e \<Rightarrow> Inl (e, r0)
      | None \<Rightarrow>
          (let data = map (getrandbits env i) [0..<block_size];
               r = emit (Allocate i) (r0\<lparr>memory_blocks := memory_blocks r0 @ [data]\<rparr>);
               r = r\<lparr>blocks_tested := int i + 1\<rparr>
           in case true_div (int i + 1) num_blocks of
                Inl e \<Rightarrow> Inl (e, r)
              | Inr q \<Rightarrow>
                  (let r = set_progress (py_int (q * 50)) r;
                       r = r\<lparr>memory_usage := memory_usage r @
                              [\<lparr> mu_time = i, mu_used_percent = fst (virtual_memory env i),
                                 mu_used_gb = snd (virtual_memory env i) / 1024 ^ 3 \<rparr>]\<rparr>;
                       r = call_back (mem_callback env) r
                   in Inr (sleep (1 / 10) r))))"

fun allocate_loop ::
  "memory_env \<Rightarrow> int \<Rightarrow> nat list \<Rightarrow> memory_results \<Rightarrow> (string \<times> memory_results) + memory_results"
where
  "allocate_loop env num_blocks [] r = Inr r"
| "allocate_loop env num_blocks (i # is) r =
     (if \<not> alloc_testing env i then Inr r
      else
        (case allocate_block env num_blocks i r of
           Inl raised \<Rightarrow> Inl raised
         | Inr r' \<Rightarrow> allocate_loop env num_blocks is r'))"

text \<open>
  The integrity check of one block: the checksum is compared with the same sum computed
  again; an exception inside the inner \<^verbatim>\<open>try\<close> counts as an error as well.
\<close>

definition verify_data :: "memory_env \<Rightarrow> nat \<Rightarrow> 8 word list \<Rightarrow> memory_results \<Rightarrow> memory_results"
where
  "verify_data env i block r =
     (if checksum_error env i then r\<lparr>errors_found := errors_found r + 1\<rparr>
      else
        (let checksum = sum_block block mod 256
         in if checksum \<noteq> sum_block block mod 256
            then r\<lparr>errors_found := errors_found r + 1\<rparr>
            else r))"

definition verify_block ::
  "memory_env \<Rightarrow> nat \<Rightarrow> 8 word list \<Rightarrow> memory_results \<Rightarrow> (string \<times> memory_results) + memory_results"
where
  "verify_block env i block r0 =
     (let r = emit (Verify i) r0;
          r = verify_data env i block r
      in case true_div (int i + 1) (int (length (memory_blocks r))) of
           Inl e \<Rightarrow> Inl (e, r)
         | Inr q \<Rightarrow>
             (let r = set_progress (py_int (50 + q * 50)) r;
                  r = call_back (mem_callback env) r
              in Inr (sleep (5 / 100) r)))"

fun verify_loop ::
  "memory_env \<Rightarrow> (nat \<times> 8 word list) list \<Rightarrow> memory_results \<Rightarrow> (string \<times> memory_results) + memory_results"
where
  "verify_loop env [] r = Inr r"
| "verify_loop env ((i, block) # rest) r =
     (if \<not> verify_testing env i then Inr r
      else
        (case verify_block env i block r of
           Inl raised \<Rightarrow> Inl raised
         | Inr r' \<Rightarrow> verify_loop env rest r'))"

definition memory_finish :: "memory_env \<Rightarrow> memory_results \<Rightarrow> memory_results" where
  "memory_finish env r0 =
     (let r = r0\<lparr>memory_blocks := []\<rparr>;
          r = set_progress 100 r;
          r = r\<lparr>mem_end_time := Some (mem_end_datetime env)\<rparr>;
          r = set_status (final_status (mem_end_testing env)) r;
          r = emit ClearTesting r
      in call_back (mem_callback env) r)"

definition memory_handler :: "memory_env \<Rightarrow> string \<times> memory_results \<Rightarrow> memory_results" where
  "memory_handler env raised =
     (let r = (snd raised)\<lparr>mem_error := Some (fst raised)\<rparr>;
          r = set_status Error r;
          r = emit ClearTesting r
      in call_back (mem_callback env) r)"

definition allocation_phase ::
  "memory_env \<Rightarrow> int \<Rightarrow> (string \<times> memory_results) + memory_results" where
  "allocation_phase env size_mb =
     allocate_loop env size_mb [0..<nat size_mb] (memory_initial size_mb)"

definition verification_phase ::
  "memory_env \<Rightarrow> memory_results \<Rightarrow> (string \<times> memory_results) + memory_results" where
  "verification_phase env r = verify_loop env (enumerate 0 (memory_blocks r)) r"

definition memory_test_worker :: "memory_env \<Rightarrow> int \<Rightarrow> memory_results" where
  "memory_test_worker env size_mb =
     (case allocation_phase env size_mb of
        Inl raised \<Rightarrow> memory_handler env raised
      | Inr r \<Rightarrow>
          (case verification_phase env r of
             Inl raised \<Rightarrow> memory_handler env raised
           | Inr r' \<Rightarrow> memory_finish env r'))"

section \<open>The disk speed test\<close>

text \<open>
  A failure to delete the temporary file is caught and printed only; it leaves no mark on
  \<^verbatim>\<open>results\<close> and is not part of the environment.
\<close>

record disk_env =
  disk_callback :: bool
  tempfile_error :: "string option"
  open_write_error :: "string option"
  write_testing :: "nat \<Rightarrow> bool"
  write_error :: "nat \<Rightarrow> string option"
  write_start :: rat
  write_end :: rat
  open_read_error :: "string option"
  read_testing :: "nat \<Rightarrow> bool"
  read_error :: "nat \<Rightarrow> string option"
  read_start :: rat
  read_end :: rat
  disk_end_testing :: bool
  disk_end_datetime :: rat

record disk_results = results +
  test_file_size_mb :: int
  write_speed_mbps :: rat
  read_speed_mbps :: rat
  disk_end_time :: "rat option"
  disk_error :: "string option"

definition disk_initial :: "int \<Rightarrow> disk_results" where
  "disk_initial size_mb =
     \<lparr> progress = Some 0, status = Running, trace = [],
       test_file_size_mb = size_mb, write_speed_mbps = 0, read_speed_mbps = 0,
       disk_end_time = None, disk_error = None \<rparr>"

text \<open>\<^verbatim>\<open>(i + 1) % 5 == 0 or i == test_file_size_mb - 1\<close>\<close>

definition callback_due :: "int \<Rightarrow> nat \<Rightarrow> bool" where
  "callback_due size_mb i = ((int i + 1) mod 5 = 0 \<or> int i = size_mb - 1)"

definition write_chunk ::
  "disk_env \<Rightarrow> int \<Rightarrow> nat \<Rightarrow> disk_results \<Rightarrow> (string \<times> disk_results) + disk_results" where
  "write_chunk env size_mb i r0 =
     (case write_error env i of
        Some e \<Rightarrow> Inl (e, r0)
      | None \<Rightarrow>
          (let r = emit (WriteChunk i) r0
           in case true_div (int i + 1) size_mb of
                Inl e \<Rightarrow> Inl (e, r)
              | Inr q \<Rightarrow>
                  (let write_progress = py_int (q * 50);
                       r = set_progress write_progress r
                   in Inr (if callback_due size_mb i then call_back (disk_callback env) r
                           else r))))"

fun write_loop ::
  "disk_env \<Rightarrow> int \<Rightarrow> nat list \<Rightarrow> disk_results \<Rightarrow> (string \<times> disk_results) + disk_results" where
  "write_loop env size_mb [] r = Inr r"
| "write_loop env size_mb (i # is) r =
     (if \<not> write_testing env i then Inr r
      else
        (case write_chunk env size_mb i r of
           Inl raised \<Rightarrow> Inl raised
         | Inr r' \<Rightarrow> write_loop env size_mb is r'))"

definition read_chunk ::
  "disk_env \<Rightarrow> int \<Rightarrow> nat \<Rightarrow> disk_results \<Rightarrow> (string \<times> disk_results) + disk_results" where
  "read_chunk env size_mb i r0 =
     (case read_error env i of
        Some e \<Rightarrow> Inl (e, r0)
      | None \<Rightarrow>
          (let r = emit (ReadChunk i) r0
           in case true_div (int i + 1) size_mb of
                Inl e \<Rightarrow> Inl (e, r)
              | Inr q \<Rightarrow>
                  (let read_progress = py_int (50 + q * 50);
                       r = set_progress read_progress r
                   in Inr (if callback_due size_mb i then call_back (disk_callback env) r
                           else r))))"

fun read_loop ::
  "disk_env \<Rightarrow> int \<Rightarrow> nat list \<Rightarrow> disk_results \<Rightarrow> (string \<times> disk_results) + disk_results" where
  "read_loop env size_mb [] r = Inr r"
| "read_loop env size_mb (i # is) r =
     (if \<not> read_testing env i then Inr r
      else
        (case read_chunk env size_mb i r of
           Inl raised \<Rightarrow> Inl raised
         | Inr r' \<Rightarrow> read_loop env size_mb is r'))"

text \<open>\<^verbatim>\<open>test_file_size_mb / t if t > 0 else 0\<close>\<close>

definition speed_mbps :: "int \<Rightarrow> rat \<Rightarrow> rat" where
  "speed_mbps size_mb t = (if t > 0 then of_int size_mb / t else 0)"

definition write_phase ::
  "disk_env \<Rightarrow> disk_results \<Rightarrow> (string \<times> disk_results) + disk_results" where
  "write_phase env r =
     (case open_write_error env of
        Some e \<Rightarrow> Inl (e, r)
      | None \<Rightarrow>
          (case write_loop env (test_file_size_mb r) [0..<nat (test_file_size_mb r)] r of
             Inl raised \<Rightarrow> Inl raised
           | Inr r' \<Rightarrow>
               Inr (r'\<lparr>write_speed_mbps :=
                          speed_mbps (test_file_size_mb r') (write_end env - write_start env)\<rparr>)))"

definition read_phase ::
  "disk_env \<Rightarrow> disk_results \<Rightarrow> (string \<times> disk_results) + disk_results" where
  "read_phase env r =
     (case open_read_error env of
        Some e \<Rightarrow> Inl (e, r)
      | None \<Rightarrow>
          (case read_loop env (test_file_size_mb r) [0..<nat (test_file_size_mb r)] r of
             Inl raised \<Rightarrow> Inl raised
           | Inr r' \<Rightarrow>
               Inr (r'\<lparr>read_speed_mbps :=
                          speed_mbps (test_file_size_mb r') (read_end env - read_start env)\<rparr>)))"

definition disk_finish :: "disk_env \<Rightarrow> disk_results \<Rightarrow> disk_results" where
  "disk_finish env r0 =
     (let r = r0\<lparr>disk_end_time := Some (disk_end_datetime env)\<rparr>;
          r = set_status (final_status (disk_end_testing env)) r;
          r = set_progress 100 r;
          r = emit ClearTesting r
      in call_back (disk_callback env) r)"

definition disk_handler :: "disk_env \<Rightarrow> string \<times> disk_results \<Rightarrow> disk_results" where
  "disk_handler env raised =
     (let r = (snd raised)\<lparr>disk_error := Some (fst raised)\<rparr>;
          r = set_status Error r;
          r = emit ClearTesting r
      in call_back (disk_callback env) r)"

definition disk_test_worker :: "disk_env \<Rightarrow> int \<Rightarrow> disk_results" where
  "disk_test_worker env size_mb =
     (case tempfile_error env of
        Some e \<Rightarrow> disk_handler env (e, disk_initial size_mb)
      | None \<Rightarrow>
          (case write_phase env (disk_initial size_mb) of
             Inl raised \<Rightarrow> disk_handler env raised
           | Inr r \<Rightarrow>
               (case read_phase env r of
                  Inl raised \<Rightarrow> disk_handler env raised
                | Inr r' \<Rightarrow> disk_finish env r')))"

section \<open>The CPU stress test: the monitor\<close>

text \<open>
  \<^verbatim>\<open>psutil.sensors_temperatures()\<close> inside the bare \<^verbatim>\<open>try\<close>: the temperatures of
  \<^verbatim>\<open>'coretemp'\<close>, a dictionary without that key, or an exception (the function does not
  exist on Windows).
\<close>

datatype temps_result = Coretemp "rat list" | NoCoretemp | TempsError

record usage_sample =
  us_time :: rat
  us_usage :: rat

record temperature_sample =
  ts_time :: rat
  ts_temperature :: rat

text \<open>
  The environment gives, for pass \<open>k\<close> of the loop, the four readings of \<^verbatim>\<open>time.time()\<close>
  (in the loop condition, for the elapsed time, with the usage sample and with the
  temperature sample), the flag \<^verbatim>\<open>self.is_testing\<close>, the CPU usage and the temperatures.
\<close>

record cpu_env =
  cpu_callback :: bool
  start_time :: rat
  cond_time :: "nat \<Rightarrow> rat"
  cpu_testing :: "nat \<Rightarrow> bool"
  elapsed_clock :: "nat \<Rightarrow> rat"
  cpu_percent :: "nat \<Rightarrow> rat"
  sample_time :: "nat \<Rightarrow> rat"
  temperatures :: "nat \<Rightarrow> temps_result"
  temp_time :: "nat \<Rightarrow> rat"
  cpu_end_testing :: bool
  cpu_end_datetime :: rat

text \<open>
  The \<^verbatim>\<open>results\<close> dictionary of \<^verbatim>\<open>cpu_stress_test\<close> (without a \<^verbatim>\<open>'progress'\<close> key at
  first), followed by the monitor's counters.
\<close>

record cpu_results = results +
  duration :: rat
  cpu_usage_samples :: "usage_sample list"
  cpu_temperatures :: "temperature_sample list"
  max_usage :: rat
  avg_usage :: rat
  cpu_end_time :: "rat option"
  sample_count :: nat
  total_usage :: rat

definition cpu_initial :: "rat \<Rightarrow> cpu_results" where
  "cpu_initial d =
     \<lparr> progress = None, status = Running, trace = [],
       duration = d, cpu_usage_samples = [], cpu_temperatures = [], max_usage = 0,
       avg_usage = 0, cpu_end_time = None, sample_count = 0, total_usage = 0 \<rparr>"

definition record_temperature :: "cpu_env \<Rightarrow> nat \<Rightarrow> cpu_results \<Rightarrow> cpu_results" where
  "record_temperature env k r =
     (case temperatures env k of
        Coretemp (t # ts) \<Rightarrow>
          r\<lparr>cpu_temperatures := cpu_temperatures r @
               [\<lparr> ts_time = temp_time env k - start_time env,
                  ts_temperature = fold max ts t \<rparr>]\<rparr>
      | _ \<Rightarrow> r)"

text \<open>
  One pass through the body of the monitor's loop. The division by \<^verbatim>\<open>duration\<close> raises
  when it is zero; the monitor has no handler, so its thread ends there.
\<close>

definition monitor_pass :: "cpu_env \<Rightarrow> nat \<Rightarrow> cpu_results \<Rightarrow> string + cpu_results" where
  "monitor_pass env k r0 =
     (let elapsed_time = elapsed_clock env k - start_time env
      in if duration r0 = 0 then Inl ''float division by zero''
         else
           (let progress_now = py_int ((elapsed_time / duration r0) * 100);
                r = set_progress (min progress_now 100) r0;
                cpu_usage = cpu_percent env k;
                r = r\<lparr>cpu_usage_samples := cpu_usage_samples r @
                       [\<lparr> us_time = sample_time env k - start_time env,
                          us_usage = cpu_usage \<rparr>]\<rparr>;
                r = r\<lparr>total_usage := total_usage r + cpu_usage,
                       sample_count := sample_count r + 1\<rparr>;
                r = (if cpu_usage > max_usage r then r\<lparr>max_usage := cpu_usage\<rparr> else r);
                r = record_temperature env k r;
                r = call_back (cpu_callback env) r
            in Inr (sleep 1 r)))"

datatype loop_exit = Exited | Raised string | OutOfFuel

text \<open>
  \<^verbatim>\<open>while time.time() - start_time < duration and self.is_testing\<close>. Nothing in the
  program bounds the number of passes (the clock is the environment's), so the loop takes
  fuel: with \<open>OutOfFuel\<close> the state is the one after that many passes, the loop still
  going.
\<close>

fun monitor_loop :: "cpu_env \<Rightarrow> nat \<Rightarrow> nat \<Rightarrow> cpu_results \<Rightarrow> loop_exit \<times> cpu_results" where
  "monitor_loop env 0 k r = (OutOfFuel, r)"
| "monitor_loop env (Suc fuel) k r =
     (if cond_time env k - start_time env < duration r \<and> cpu_testing env k
      then (case monitor_pass env k r of
              Inl e \<Rightarrow> (Raised e, r)
            | Inr r' \<Rightarrow> monitor_loop env fuel (Suc k) r')
      else (Exited, r))"

definition monitor_finish :: "cpu_env \<Rightarrow> cpu_results \<Rightarrow> cpu_results" where
  "monitor_finish env r0 =
     (let r = r0\<lparr>avg_usage := (if sample_count r0 > 0
                                then total_usage r0 / of_nat (sample_count r0) else 0)\<rparr>;
          r = set_progress 100 r;
          r = r\<lparr>cpu_end_time := Some (cpu_end_datetime env)\<rparr>;
          r = set_status (final_status (cpu_end_testing env)) r;
          r = emit ClearTesting r
      in call_back (cpu_callback env) r)"

definition monitor_worker :: "cpu_env \<Rightarrow> nat \<Rightarrow> rat \<Rightarrow> loop_exit \<times> cpu_results" where
  "monitor_worker env fuel d =
     (case monitor_loop env fuel 0 (cpu_initial d) of
        (Exited, r) \<Rightarrow> (Exited, monitor_finish env r)
      | (other, r) \<Rightarrow> (other, r))"

section \<open>Properties of traces\<close>

text \<open>
  The claims about the order and the number of a worker's effects are stated through
  functions that read a trace.
\<close>

fun is_poll :: "effect \<Rightarrow> bool" where
  "is_poll (Poll k) = True"
| "is_poll e = False"

fun is_sample :: "effect \<Rightarrow> bool" where
  "is_sample (Sample plugged level) = True"
| "is_sample e = False"

fun is_callback :: "effect \<Rightarrow> bool" where
  "is_callback (Callback p s) = True"
| "is_callback e = False"

fun is_chunk :: "effect \<Rightarrow> bool" where
  "is_chunk (WriteChunk i) = True"
| "is_chunk (ReadChunk i) = True"
| "is_chunk e = False"

fun is_block :: "effect \<Rightarrow> bool" where
  "is_block (Allocate i) = True"
| "is_block (Verify i) = True"
| "is_block e = False"

fun sleep_seconds :: "effect \<Rightarrow> rat" where
  "sleep_seconds (Sleep d) = d"
| "sleep_seconds e = 0"

definition polls :: "effect list \<Rightarrow> effect list" where
  "polls tr = filter is_poll tr"

definition samples :: "effect list \<Rightarrow> effect list" where
  "samples tr = filter is_sample tr"

definition slept :: "effect list \<Rightarrow> rat" where
  "slept tr = sum_list (map sleep_seconds tr)"

definition callbacks :: "effect list \<Rightarrow> effect list" where
  "callbacks tr = filter is_callback tr"

definition chunks :: "effect list \<Rightarrow> effect list" where
  "chunks tr = filter is_chunk tr"

definition blocks :: "effect list \<Rightarrow> effect list" where
  "blocks tr = filter is_block tr"




fun is_battery :: "sensor_result \<Rightarrow> bool" where
  "is_battery (Battery b) = True"
| "is_battery s = False"

text \<open>The run is not stopped early: every test of the flag at the head of the loop passes.\<close>

definition not_stopped :: "(nat \<Rightarrow> bool) \<Rightarrow> int \<Rightarrow> bool" where
  "not_stopped testing n = list_all testing [0..<nat n]"

fun progress_within :: "int \<Rightarrow> int \<Rightarrow> effect \<Rightarrow> bool" where
  "progress_within lo hi (SetProgress p) = (lo \<le> p \<and> p \<le> hi)"
| "progress_within lo hi e = True"

definition progress_in_range :: "'a results_scheme \<Rightarrow> bool" where
  "progress_in_range r =
     ((case progress r of None \<Rightarrow> True | Some p \<Rightarrow> 0 \<le> p \<and> p \<le> 100) \<and>
      list_all (progress_within 0 100) (trace r))"

text \<open>
  Reading a trace from an initial progress: the pair holds the value of
  \<^verbatim>\<open>results['progress']\<close> after the effects read so far, and whether every write of a
  status \<open>Completed\<close> or \<open>Stopped\<close> so far found the progress at 100.
\<close>

definition finished :: "status \<Rightarrow> bool" where
  "finished s = (s = Completed \<or> s = Stopped)"

fun status_step :: "int option \<times> bool \<Rightarrow> effect \<Rightarrow> int option \<times> bool" where
  "status_step (p, ok) (SetProgress q) = (Some q, ok)"
| "status_step (p, ok) (SetStatus s) = (p, ok \<and> (finished s \<longrightarrow> p = Some 100))"
| "status_step (p, ok) e = (p, ok)"

definition full_when_status_set :: "int option \<Rightarrow> effect list \<Rightarrow> bool" where
  "full_when_status_set initial_progress tr =
     snd (foldl status_step (initial_progress, True) tr)"

fun callback_sees_full :: "effect \<Rightarrow> bool" where
  "callback_sees_full (Callback p s) = (finished s \<longrightarrow> p = Some 100)"
| "callback_sees_full e = True"

definition full_when_finished :: "'a results_scheme \<Rightarrow> bool" where
  "full_when_finished r =
     (list_all callback_sees_full (trace r) \<and> (finished (status r) \<longrightarrow> progress r = Some 100))"

text \<open>
  The callbacks of a phase of the disk test: the step keeps the index of the last chunk
  and gives \<open>None\<close> at a callback that does not follow a chunk with
  \<^verbatim>\<open>(i + 1) % 5 == 0 or i == test_file_size_mb - 1\<close>.
\<close>

fun due_step :: "int \<Rightarrow> nat option option \<Rightarrow> effect \<Rightarrow> nat option option" where
  "due_step n None e = None"
| "due_step n (Some prev) (WriteChunk i) = Some (Some i)"
| "due_step n (Some prev) (ReadChunk i) = Some (Some i)"
| "due_step n (Some prev) (Callback p s) =
     (case prev of
        None \<Rightarrow> None
      | Some i \<Rightarrow> (if callback_due n i then Some None else None))"
| "due_step n (Some prev) e = Some prev"

definition callbacks_only_when_due :: "int \<Rightarrow> effect list \<Rightarrow> bool" where
  "callbacks_only_when_due n tr = (foldl (due_step n) (Some None) tr \<noteq> None)"

text \<open>The number of callbacks that the chunks of a phase call for.\<close>

definition due_count :: "disk_env \<Rightarrow> int \<Rightarrow> nat list \<Rightarrow> nat" where
  "due_count env n is = (if disk_callback env then length (filter (callback_due n) is) else 0)"

text \<open>The effects a phase added to the trace it started with.\<close>

definition added :: "'a results_scheme \<Rightarrow> 'b results_scheme \<Rightarrow> effect list" where
  "added before after = drop (length (trace before)) (trace after)"

text \<open>
  The charging events that the sampled states call for: walking through the samples with
  the last recorded state, a sample that differs from it gives an event (\<open>plugged_in\<close>
  when the sample is plugged, \<open>unplugged\<close> otherwise) and becomes the recorded state; a
  sample that equals it gives nothing.
\<close>

definition event_of :: "rat \<Rightarrow> battery \<Rightarrow> charging_event" where
  "event_of timestamp b =
     \<lparr> ev_timestamp = timestamp,
       ev_event = (if power_plugged b = Some True then ''plugged_in'' else ''unplugged''),
       ev_battery_level = percent b,
       ev_charging_state = power_plugged b \<rparr>"

fun transitions :: "bool option \<Rightarrow> (rat \<times> battery) list \<Rightarrow> charging_event list" where
  "transitions recorded [] = []"
| "transitions recorded ((timestamp, b) # rest) =
     (if power_plugged b \<noteq> recorded
      then event_of timestamp b # transitions (power_plugged b) rest
      else transitions recorded rest)"

text \<open>The samples that the loop takes over the given checks, with their time stamps.\<close>

fun sampled :: "charging_env \<Rightarrow> nat list \<Rightarrow> (rat \<times> battery) list" where
  "sampled env [] = []"
| "sampled env (check # checks) =
     (if \<not> loop_testing env check then []
      else (case loop_sensor env check of
              Battery b \<Rightarrow> (loop_datetime env check, b) # sampled env checks
            | _ \<Rightarrow> sampled env checks))"

text \<open>
  While a worker is in its loops, the status stays \<open>Running\<close>: an effect is \<open>quiet\<close> when
  it writes no status and, for a callback, shows the status \<open>Running\<close>.
\<close>

fun quiet :: "effect \<Rightarrow> bool" where
  "quiet (SetStatus s) = False"
| "quiet (Callback p s) = (s = Running)"
| "quiet e = True"

definition while_running :: "'a results_scheme \<Rightarrow> bool" where
  "while_running r = (status r = Running \<and> progress_in_range r \<and> list_all quiet (trace r))"

section \<open>Environments for the examples\<close>

text \<open>
  A stand-in for \<^verbatim>\<open>packaging.version.parse\<close> on three version strings, with the order of
  their numbers; every other string is refused.
\<close>

definition table_parse :: "string \<Rightarrow> string + nat" where
  "table_parse s =
     (if s = ''1.0.0'' then Inr 100
      else if s = ''1.1.0'' then Inr 110
      else if s = ''2.0.0'' then Inr 200
      else Inl (''Invalid version: '' @ s))"

definition release_tagged :: "string \<Rightarrow> release_data" where
  "release_tagged tag =
     \<lparr> tag_name = Some tag, release_name = None, body = None, published_at = None,
       assets = None, zipball_url = None \<rparr>"

text \<open>Every endpoint answers 200; the releases API answers with the given response.\<close>

definition api_answers :: "http_result \<Rightarrow> string \<Rightarrow> http_result" where
  "api_answers answer url =
     (if url = ''https://api.github.com/repos/bibekchandsah/pc-checker/releases/latest''
      then answer
      else Response 200 (Inl ''Expecting value''))"

definition offline :: "string \<Rightarrow> http_result" where
  "offline url = ConnectionError ''Max retries exceeded''"

text \<open>
  A battery at 80 percent on battery power when the test starts; the test is never
  stopped, and the sensor answers as given in each pass.
\<close>

definition discharging :: battery where
  "discharging = \<lparr>power_plugged = Some False, percent = 80\<rparr>"

definition charging_example :: "sensor_result \<Rightarrow> (nat \<Rightarrow> sensor_result) \<Rightarrow> charging_env" where
  "charging_example first sensors =
     \<lparr> ch_callback = True,
       first_sensor = first,
       loop_testing = (\<lambda>check. True),
       loop_sensor = sensors,
       loop_datetime = (\<lambda>check. of_nat (2 * check)),
       loop_time = (\<lambda>check. 1000 + of_nat (2 * check)),
       ch_end_testing = True,
       ch_end_datetime = 60 \<rparr>"

text \<open>The charger is seen plugged in the first sample only.\<close>

definition transient_flip :: "nat \<Rightarrow> sensor_result" where
  "transient_flip check = Battery \<lparr>power_plugged = Some (check = 0), percent = 80\<rparr>"


definition steady :: "nat \<Rightarrow> sensor_result" where
  "steady check = Battery discharging"

text \<open>A memory test that is never stopped and meets no exception.\<close>

definition memory_example :: memory_env where
  "memory_example =
     \<lparr> mem_callback = True,
       alloc_testing = (\<lambda>i. True),
       alloc_error = (\<lambda>i. None),
       getrandbits = (\<lambda>i j. word_of_nat (7 * i + j)),
       virtual_memory = (\<lambda>i. (40, 8 * 1024 ^ 3)),
       verify_testing = (\<lambda>i. True),
       checksum_error = (\<lambda>i. False),
       mem_end_testing = True,
       mem_end_datetime = 10 \<rparr>"

text \<open>
  The same memory test, but the allocation of the third block raises a
  \<^verbatim>\<open>MemoryError\<close>, whose message is empty.
\<close>

definition memory_failing :: memory_env where
  "memory_failing = memory_example\<lparr>alloc_error := (\<lambda>i. if i = 2 then Some [] else None)\<rparr>"

text \<open>
  A disk test without input/output errors. With \<open>None\<close> it is never stopped; with
  \<open>Some k\<close> the flag is cleared when \<open>k\<close> chunks have been written.
\<close>

definition disk_example :: "nat option \<Rightarrow> disk_env" where
  "disk_example stop =
     \<lparr> disk_callback = True,
       tempfile_error = None,
       open_write_error = None,
       write_testing = (\<lambda>i. case stop of None \<Rightarrow> True | Some k \<Rightarrow> i < k),
       write_error = (\<lambda>i. None),
       write_start = 0,
       write_end = 1,
       open_read_error = None,
       read_testing = (\<lambda>i. stop = None),
       read_error = (\<lambda>i. None),
       read_start = 1,
       read_end = 2,
       disk_end_testing = (stop = None),
       disk_end_datetime = 2 \<rparr>"

text \<open>A monitor whose clock moves two seconds with every pass.\<close>

definition cpu_example :: cpu_env where
  "cpu_example =
     \<lparr> cpu_callback = True,
       start_time = 1000,
       cond_time = (\<lambda>k. 1000 + of_nat (2 * k)),
       cpu_testing = (\<lambda>k. True),
       elapsed_clock = (\<lambda>k. 1000 + of_nat (2 * k)),
       cpu_percent = (\<lambda>k. 97),
       sample_time = (\<lambda>k. 1001 + of_nat (2 * k)),
       temperatures = (\<lambda>k. TempsError),
       temp_time = (\<lambda>k. 1001 + of_nat (2 * k)),
       cpu_end_testing = True,
       cpu_end_datetime = 1006 \<rparr>"

section \<open>Lemmas on the shared operations\<close>

lemma trace_emit [simp]: "trace (emit e r) = trace r @ [e]"
  by (simp add: emit_def)

lemma trace_set_progress [simp]: "trace (set_progress p r) = trace r @ [SetProgress p]"
  by (simp add: set_progress_def)

lemma trace_set_status [simp]: "trace (set_status s r) = trace r @ [SetStatus s]"
  by (simp add: set_status_def)

lemma trace_sleep [simp]: "trace (sleep d r) = trace r @ [Sleep d]"
  by (simp add: sleep_def)

lemma trace_call_back:
  "trace (call_back cb r) = trace r @ (if cb then [Callback (progress r) (status r)] else [])"
  by (simp add: call_back_def)

lemma progress_emit [simp]: "progress (emit e r) = progress r"
  by (simp add: emit_def)

lemma status_emit [simp]: "status (emit e r) = status r"
  by (simp add: emit_def)

lemma progress_set_progress [simp]: "progress (set_progress p r) = Some p"
  by (simp add: set_progress_def)

lemma status_set_progress [simp]: "status (set_progress p r) = status r"
  by (simp add: set_progress_def)

lemma progress_set_status [simp]: "progress (set_status s r) = progress r"
  by (simp add: set_status_def)

lemma status_set_status [simp]: "status (set_status s r) = s"
  by (simp add: set_status_def)

lemma progress_call_back [simp]: "progress (call_back c r) = progress r"
  by (simp add: call_back_def)

lemma status_call_back [simp]: "status (call_back c r) = status r"
  by (simp add: call_back_def)

lemma progress_sleep [simp]: "progress (sleep d r) = progress r"
  by (simp add: sleep_def)

lemma status_sleep [simp]: "status (sleep d r) = status r"
  by (simp add: sleep_def)

lemma py_int_bounds:
  assumes "0 \<le> lo" and "of_int lo \<le> q" and "q \<le> of_int hi"
  shows "lo \<le> py_int q" and "py_int q \<le> hi"
proof -
  have "0 \<le> q"
    using assms(1,2) by (meson of_int_0_le_iff order_trans)
  then have f: "py_int q = \<lfloor>q\<rfloor>"
    by (simp add: py_int_def)
  show "lo \<le> py_int q"
    using assms(2) by (simp add: f le_floor_iff)
  have "\<lfloor>q\<rfloor> \<le> \<lfloor>(of_int hi :: rat)\<rfloor>"
    using assms(3) by (rule floor_mono)
  then show "py_int q \<le> hi"
    by (simp add: f)
qed

lemma true_div_unit:
  assumes "0 < a" and "a \<le> b"
  shows "\<exists>q. true_div a b = Inr q \<and> 0 \<le> q \<and> q \<le> 1"
proof -
  have "0 < b"
    using assms by simp
  then have "true_div a b = Inr (of_int a / of_int b)"
    by (simp add: true_div_def)
  moreover have "(0::rat) \<le> of_int a / of_int b"
    using assms \<open>0 < b\<close> by simp
  moreover have "(of_int a / of_int b :: rat) \<le> 1"
    using assms \<open>0 < b\<close> by simp
  ultimately show ?thesis
    by blast
qed

lemma quiet_sees_full: "list_all quiet tr \<Longrightarrow> list_all callback_sees_full tr"
proof (induction tr)
  case (Cons e tr)
  then show ?case by (cases e) (simp_all add: finished_def)
qed simp

lemma quiet_status_step:
  "list_all quiet tr \<Longrightarrow> snd (foldl status_step (p, ok) tr) = ok"
proof (induction tr arbitrary: p)
  case (Cons e tr)
  then show ?case by (cases e) simp_all
qed simp

lemma status_step_callbacks:
  "list_all is_callback cb \<Longrightarrow> foldl status_step (p, ok) cb = (p, ok)"
proof (induction cb)
  case (Cons e cb)
  then show ?case by (cases e) simp_all
qed simp

lemma while_running_emit:
  "while_running r \<Longrightarrow> quiet e \<Longrightarrow> progress_within 0 100 e \<Longrightarrow> while_running (emit e r)"
  by (simp add: while_running_def progress_in_range_def)

lemma while_running_set_progress:
  "while_running r \<Longrightarrow> 0 \<le> p \<Longrightarrow> p \<le> 100 \<Longrightarrow> while_running (set_progress p r)"
  by (simp add: while_running_def progress_in_range_def)

lemma while_running_call_back: "while_running r \<Longrightarrow> while_running (call_back c r)"
  by (simp add: while_running_def progress_in_range_def trace_call_back)

lemma while_running_sleep: "while_running r \<Longrightarrow> while_running (sleep d r)"
  by (simp add: while_running_def progress_in_range_def)

lemma while_running_cong:
  "while_running r \<Longrightarrow> status r' = status r \<Longrightarrow> progress r' = progress r \<Longrightarrow>
   trace r' = trace r \<Longrightarrow> while_running r'"
  by (simp add: while_running_def progress_in_range_def)

text \<open>
  How the last statements of a worker, and its handler, leave a dictionary that was
  running.
\<close>

lemma finish_progress_first:
  assumes "while_running r"
    and "trace r' = trace r @ [SetProgress 100, SetStatus s, ClearTesting] @
          (if c then [Callback (Some 100) s] else [])"
    and "progress r' = Some 100" and "status r' = s"
  shows "progress_in_range r' \<and> full_when_finished r' \<and>
         full_when_status_set initial (trace r')"
proof -
  have q: "list_all quiet (trace r)" "list_all (progress_within 0 100) (trace r)"
    using assms(1) by (simp_all add: while_running_def progress_in_range_def)
  have a: "progress_in_range r'"
    using q assms(2,3) by (simp add: progress_in_range_def)
  have b: "full_when_finished r'"
    using quiet_sees_full [OF q(1)] assms(2-4) by (simp add: full_when_finished_def)
  obtain p where "foldl status_step (initial, True) (trace r) = (p, True)"
    using quiet_status_step [OF q(1), of initial True]
    by (metis prod.collapse)
  then have "full_when_status_set initial (trace r')"
    using assms(2) by (simp add: full_when_status_set_def)
  with a b show ?thesis
    by simp
qed

lemma handler_leaves:
  assumes "while_running r"
    and "trace r' = trace r @ [SetStatus Error, ClearTesting] @
          (if c then [Callback (progress r) Error] else [])"
    and "progress r' = progress r" and "status r' = Error"
  shows "progress_in_range r' \<and> full_when_finished r' \<and>
         full_when_status_set initial (trace r')"
proof -
  have q: "list_all quiet (trace r)" "list_all (progress_within 0 100) (trace r)"
    "case progress r of None \<Rightarrow> True | Some p \<Rightarrow> 0 \<le> p \<and> p \<le> 100"
    using assms(1) by (simp_all add: while_running_def progress_in_range_def)
  have a: "progress_in_range r'"
    using q assms(2,3) by (simp add: progress_in_range_def)
  have b: "full_when_finished r'"
    using quiet_sees_full [OF q(1)] assms(2-4)
    by (simp add: full_when_finished_def finished_def)
  obtain p where "foldl status_step (initial, True) (trace r) = (p, True)"
    using quiet_status_step [OF q(1), of initial True]
    by (metis prod.collapse)
  then have "full_when_status_set initial (trace r')"
    using assms(2) by (simp add: full_when_status_set_def finished_def)
  with a b show ?thesis
    by simp
qed

lemma added_append: "trace r' = trace r @ t \<Longrightarrow> added r r' = t"
  by (simp add: added_def)

lemma upt_below: "list_all (\<lambda>i. int i < n) [0..<nat n]"
  by (simp add: list_all_iff zless_nat_eq_int_zless)

lemma while_running_results:
  assumes "while_running r"
  shows "progress_in_range r \<and> full_when_finished r \<and> full_when_status_set initial (trace r)"
proof -
  have q: "list_all quiet (trace r)" "status r = Running" "progress_in_range r"
    using assms by (simp_all add: while_running_def)
  show ?thesis
    using q quiet_sees_full [OF q(1)] quiet_status_step [OF q(1), of initial True]
    by (simp add: full_when_finished_def full_when_status_set_def finished_def)
qed

lemma finish_status_first:
  assumes "while_running r"
    and "trace r' = trace r @ [SetStatus s, SetProgress 100, ClearTesting] @
          (if c then [Callback (Some 100) s] else [])"
    and "progress r' = Some 100" and "status r' = s"
  shows "progress_in_range r' \<and> full_when_finished r'"
proof -
  have q: "list_all quiet (trace r)" "list_all (progress_within 0 100) (trace r)"
    using assms(1) by (simp_all add: while_running_def progress_in_range_def)
  have a: "progress_in_range r'"
    using q assms(2,3) by (simp add: progress_in_range_def)
  have "full_when_finished r'"
    using quiet_sees_full [OF q(1)] assms(2-4) by (simp add: full_when_finished_def)
  with a show ?thesis
    by simp
qed

section \<open>UpdateChecker: which signal is emitted\<close>

lemma api_answers_online: "test_internet_connection (api_answers answer)"
  by (simp add: test_internet_connection_def test_urls_def api_answers_def)

lemma api_answers_api:
  "api_answers answer (github_api_url ''bibekchandsah/pc-checker'') = answer"
  by (simp add: api_answers_def github_api_url_def)

lemma offline_no_connection: "\<not> test_internet_connection offline"
  by (simp add: test_internet_connection_def test_urls_def offline_def)

lemma compare_versions_single: "\<exists>s. compare_versions parse rd latest_version current_version = [s]"
  by (simp add: compare_versions_def split: sum.split)

lemma run_single: "\<exists>s. run parse http_get github_repo current_version = [s]"
  by (simp add: run_def Let_def compare_versions_single split: http_result.split sum.split)

text \<open>
  C1, as the claim states it, fails: the API answers 200 with the tag \<open>v\<close>, which is not
  empty, and \<^verbatim>\<open>run\<close> emits neither \<open>update_available\<close> nor \<open>update_not_available\<close> but
  the error for an invalid version, since the test for emptiness comes after
  \<^verbatim>\<open>lstrip('v')\<close>.
\<close>

theorem run_tag_v_counterexample:
  "tag_name (release_tagged ''v'') = Some ''v'' \<and> ''v'' \<noteq> [] \<and>
   run table_parse (api_answers (Response 200 (Inr (release_tagged ''v''))))
       ''bibekchandsah/pc-checker'' ''1.0.0''
     = [error_occurred ''Invalid version information from GitHub'']"
  by (simp add: run_def api_answers_online api_answers_api release_tagged_def lstrip_v_def
      get_default_def)

text \<open>
  C1, amended: when the connectivity test passes and the GitHub API answers 200 with a
  release, \<^verbatim>\<open>run\<close> emits exactly one signal, decided by the tag without its leading
  \<open>v\<close>s. When the stripped tag is not empty and both it and the current version parse,
  the signal is \<open>update_available\<close> if the parsed latest version is strictly greater than
  the parsed current version, and \<open>update_not_available\<close> otherwise; so an equal version
  never gives an update. When the stripped tag is empty, the signal is the error for
  invalid version information. When the stripped tag is not empty and it, or else the
  current version, does not parse, the signal is the version comparison error with the
  message of the parser.
\<close>

theorem run_update_iff_newer:
  fixes parse :: "string \<Rightarrow> string + 'v::order"
  assumes "test_internet_connection http_get"
    and "http_get (github_api_url github_repo) = Response 200 (Inr rd)"
    and "latest_version = lstrip_v (get_default (tag_name rd) '''')"
  shows "(latest_version \<noteq> [] \<and> parse latest_version = Inr latest \<and>
          parse current_version = Inr current \<longrightarrow>
            run parse http_get github_repo current_version =
              (if latest > current
               then [update_available (make_update_info rd latest_version)]
               else [update_not_available]) \<and>
            ((\<exists>info. update_available info
                \<in> set (run parse http_get github_repo current_version))
               \<longleftrightarrow> latest > current) \<and>
            (update_not_available \<in> set (run parse http_get github_repo current_version)
               \<longleftrightarrow> \<not> latest > current) \<and>
            (latest = current \<longrightarrow>
               run parse http_get github_repo current_version = [update_not_available])) \<and>
         (latest_version = [] \<longrightarrow>
            run parse http_get github_repo current_version =
              [error_occurred ''Invalid version information from GitHub'']) \<and>
         (latest_version \<noteq> [] \<and> parse latest_version = Inl e \<longrightarrow>
            run parse http_get github_repo current_version =
              [error_occurred (''Version comparison error: '' @ e)]) \<and>
         (latest_version \<noteq> [] \<and> parse latest_version = Inr latest \<and>
          parse current_version = Inl e \<longrightarrow>
            run parse http_get github_repo current_version =
              [error_occurred (''Version comparison error: '' @ e)])"
proof -
  have empty: "latest_version = [] \<longrightarrow>
      run parse http_get github_repo current_version =
        [error_occurred ''Invalid version information from GitHub'']"
    using assms by (simp add: run_def Let_def)
  have cmp: "latest_version \<noteq> [] \<longrightarrow>
      run parse http_get github_repo current_version =
        compare_versions parse rd latest_version current_version"
    using assms by (simp add: run_def Let_def)
  have newer: "latest_version \<noteq> [] \<and> parse latest_version = Inr latest \<and>
      parse current_version = Inr current \<longrightarrow>
        run parse http_get github_repo current_version =
          (if latest > current then [update_available (make_update_info rd latest_version)]
           else [update_not_available])"
    using cmp by (simp add: compare_versions_def)
  have bad_latest: "latest_version \<noteq> [] \<and> parse latest_version = Inl e \<longrightarrow>
      run parse http_get github_repo current_version =
        [error_occurred (''Version comparison error: '' @ e)]"
    using cmp by (simp add: compare_versions_def)
  have bad_current: "latest_version \<noteq> [] \<and> parse latest_version = Inr latest \<and>
      parse current_version = Inl e \<longrightarrow>
        run parse http_get github_repo current_version =
          [error_occurred (''Version comparison error: '' @ e)]"
    using cmp by (simp add: compare_versions_def)
  show ?thesis
    using empty newer bad_latest bad_current by auto
qed

theorem run_update_iff_newer_witness:
  "run table_parse (api_answers (Response 200 (Inr (release_tagged ''v1.1.0''))))
       ''bibekchandsah/pc-checker'' ''1.0.0''
     = [update_available (make_update_info (release_tagged ''v1.1.0'') ''1.1.0'')] \<and>
   run table_parse (api_answers (Response 200 (Inr (release_tagged ''v1.0.0''))))
       ''bibekchandsah/pc-checker'' ''1.0.0''
     = [update_not_available] \<and>
   run table_parse (api_answers (Response 200 (Inr (release_tagged ''vv''))))
       ''bibekchandsah/pc-checker'' ''1.0.0''
     = [error_occurred ''Invalid version information from GitHub''] \<and>
   run table_parse (api_answers (Response 200 (Inr (release_tagged ''vbeta''))))
       ''bibekchandsah/pc-checker'' ''1.0.0''
     = [error_occurred ''Version comparison error: Invalid version: beta''] \<and>
   run table_parse (api_answers (Response 200 (Inr (release_tagged ''v1.1.0''))))
       ''bibekchandsah/pc-checker'' ''dev''
     = [error_occurred ''Version comparison error: Invalid version: dev'']"
proof -
  let ?repo = "''bibekchandsah/pc-checker''"
  have strip: "lstrip_v (get_default (tag_name (release_tagged ''v1.1.0'')) '''') = ''1.1.0''"
    "lstrip_v (get_default (tag_name (release_tagged ''v1.0.0'')) '''') = ''1.0.0''"
    "lstrip_v (get_default (tag_name (release_tagged ''vv'')) '''') = []"
    "lstrip_v (get_default (tag_name (release_tagged ''vbeta'')) '''') = ''beta''"
    by (simp_all add: lstrip_v_def get_default_def release_tagged_def)
  have p: "table_parse ''1.0.0'' = Inr 100" "table_parse ''1.1.0'' = Inr 110"
    "table_parse ''beta'' = Inl ''Invalid version: beta''"
    "table_parse ''dev'' = Inl ''Invalid version: dev''"
    by (simp_all add: table_parse_def)
  have a: "run table_parse (api_answers (Response 200 (Inr (release_tagged ''v1.1.0''))))
       ?repo ''1.0.0''
     = [update_available (make_update_info (release_tagged ''v1.1.0'') ''1.1.0'')]"
    using run_update_iff_newer [OF api_answers_online api_answers_api strip(1) [symmetric],
        of table_parse 110 "''1.0.0''" 100]
    by (simp add: p)
  have b: "run table_parse (api_answers (Response 200 (Inr (release_tagged ''v1.0.0''))))
       ?repo ''1.0.0'' = [update_not_available]"
    using run_update_iff_newer [OF api_answers_online api_answers_api strip(2) [symmetric],
        of table_parse 100 "''1.0.0''" 100]
    by (simp add: p)
  have c: "run table_parse (api_answers (Response 200 (Inr (release_tagged ''vv''))))
       ?repo ''1.0.0'' = [error_occurred ''Invalid version information from GitHub'']"
    using run_update_iff_newer [OF api_answers_online api_answers_api strip(3) [symmetric],
        of table_parse]
    by simp
  have d: "run table_parse (api_answers (Response 200 (Inr (release_tagged ''vbeta''))))
       ?repo ''1.0.0'' = [error_occurred ''Version comparison error: Invalid version: beta'']"
    using run_update_iff_newer [OF api_answers_online api_answers_api strip(4) [symmetric],
        of table_parse _ "''1.0.0''" _ "''Invalid version: beta''"]
    by (simp add: p)
  have e: "run table_parse (api_answers (Response 200 (Inr (release_tagged ''v1.1.0''))))
       ?repo ''dev'' = [error_occurred ''Version comparison error: Invalid version: dev'']"
    using run_update_iff_newer [OF api_answers_online api_answers_api strip(1) [symmetric],
        of table_parse 110 "''dev''" _ "''Invalid version: dev''"]
    by (simp add: p)
  show ?thesis
    using a b c d e by blast
qed

text \<open>
  C5: every execution of \<^verbatim>\<open>run\<close> emits exactly one signal. Failed connectivity (the
  connectivity test fails, or the request to the API raises a connection error) gives
  the error \<open>No internet connection\<close>; with connectivity, the API's status 404 gives the
  repository error, 403 the rate-limit error, and every other status but 200 the error
  that prints the status. Since the one signal of these runs is \<open>error_occurred\<close>, no
  update signal is emitted in them; and in no run does an error come with another signal.
\<close>

theorem run_emits_one_signal:
  "(\<exists>s. run parse http_get github_repo current_version = [s]) \<and>
   (\<not> test_internet_connection http_get \<longrightarrow>
      run parse http_get github_repo current_version =
        [error_occurred ''No internet connection'']) \<and>
   (test_internet_connection http_get \<longrightarrow>
      (\<forall>e. http_get (github_api_url github_repo) = ConnectionError e \<longrightarrow>
         run parse http_get github_repo current_version =
           [error_occurred ''No internet connection'']) \<and>
      (\<forall>status_code json. http_get (github_api_url github_repo) = Response status_code json \<longrightarrow>
         (status_code = 404 \<longrightarrow>
            run parse http_get github_repo current_version =
              [error_occurred ''Repository not found - please check the repository URL'']) \<and>
         (status_code = 403 \<longrightarrow>
            run parse http_get github_repo current_version =
              [error_occurred ''API rate limit exceeded - please try again later'']) \<and>
         (status_code \<noteq> 404 \<and> status_code \<noteq> 403 \<and> status_code \<noteq> 200 \<longrightarrow>
            run parse http_get github_repo current_version =
              [error_occurred (''GitHub API error: HTTP '' @ str_int status_code)]))) \<and>
   (\<forall>e. error_occurred e \<in> set (run parse http_get github_repo current_version) \<longrightarrow>
      run parse http_get github_repo current_version = [error_occurred e])"
proof -
  obtain s where s: "run parse http_get github_repo current_version = [s]"
    using run_single by blast
  have last: "\<forall>e. error_occurred e \<in> set (run parse http_get github_repo current_version) \<longrightarrow>
      run parse http_get github_repo current_version = [error_occurred e]"
    by (simp add: s)
  have rest: "(\<not> test_internet_connection http_get \<longrightarrow>
      run parse http_get github_repo current_version =
        [error_occurred ''No internet connection'']) \<and>
   (test_internet_connection http_get \<longrightarrow>
      (\<forall>e. http_get (github_api_url github_repo) = ConnectionError e \<longrightarrow>
         run parse http_get github_repo current_version =
           [error_occurred ''No internet connection'']) \<and>
      (\<forall>status_code json. http_get (github_api_url github_repo) = Response status_code json \<longrightarrow>
         (status_code = 404 \<longrightarrow>
            run parse http_get github_repo current_version =
              [error_occurred ''Repository not found - please check the repository URL'']) \<and>
         (status_code = 403 \<longrightarrow>
            run parse http_get github_repo current_version =
              [error_occurred ''API rate limit exceeded - please try again later'']) \<and>
         (status_code \<noteq> 404 \<and> status_code \<noteq> 403 \<and> status_code \<noteq> 200 \<longrightarrow>
            run parse http_get github_repo current_version =
              [error_occurred (''GitHub API error: HTTP '' @ str_int status_code)])))"
    by (simp add: run_def)
  show ?thesis
    using s last rest by blast
qed

theorem run_emits_one_signal_witness:
  "run table_parse (api_answers (Response 404 (Inl ''Not Found'')))
       ''bibekchandsah/pc-checker'' ''1.0.0''
     = [error_occurred ''Repository not found - please check the repository URL''] \<and>
   run table_parse (api_answers (Response 403 (Inl ''Forbidden'')))
       ''bibekchandsah/pc-checker'' ''1.0.0''
     = [error_occurred ''API rate limit exceeded - please try again later''] \<and>
   run table_parse (api_answers (Response 500 (Inl ''Server Error'')))
       ''bibekchandsah/pc-checker'' ''1.0.0''
     = [error_occurred ''GitHub API error: HTTP 500''] \<and>
   run table_parse (api_answers (ConnectionError ''reset''))
       ''bibekchandsah/pc-checker'' ''1.0.0''
     = [error_occurred ''No internet connection''] \<and>
   run table_parse offline ''bibekchandsah/pc-checker'' ''1.0.0''
     = [error_occurred ''No internet connection'']"
proof -
  let ?repo = "''bibekchandsah/pc-checker''"
  have s500: "str_int 500 = ''500''"
    by code_simp
  have a: "run table_parse (api_answers (Response 404 (Inl ''Not Found''))) ?repo ''1.0.0''
     = [error_occurred ''Repository not found - please check the repository URL'']"
    using run_emits_one_signal [of table_parse "api_answers (Response 404 (Inl ''Not Found''))"
        ?repo "''1.0.0''"] api_answers_online api_answers_api
    by blast
  have b: "run table_parse (api_answers (Response 403 (Inl ''Forbidden''))) ?repo ''1.0.0''
     = [error_occurred ''API rate limit exceeded - please try again later'']"
    using run_emits_one_signal [of table_parse "api_answers (Response 403 (Inl ''Forbidden''))"
        ?repo "''1.0.0''"] api_answers_online api_answers_api
    by blast
  have n: "(500::int) \<noteq> 404 \<and> (500::int) \<noteq> 403 \<and> (500::int) \<noteq> 200"
    by simp
  have "run table_parse (api_answers (Response 500 (Inl ''Server Error''))) ?repo ''1.0.0''
     = [error_occurred (''GitHub API error: HTTP '' @ str_int 500)]"
    using run_emits_one_signal [of table_parse
        "api_answers (Response 500 (Inl ''Server Error''))" ?repo "''1.0.0''"]
      api_answers_online api_answers_api n
    by blast
  then have c: "run table_parse (api_answers (Response 500 (Inl ''Server Error''))) ?repo ''1.0.0''
     = [error_occurred ''GitHub API error: HTTP 500'']"
    by (simp add: s500)
  have d: "run table_parse (api_answers (ConnectionError ''reset'')) ?repo ''1.0.0''
     = [error_occurred ''No internet connection'']"
    using run_emits_one_signal [of table_parse "api_answers (ConnectionError ''reset'')"
        ?repo "''1.0.0''"] api_answers_online api_answers_api
    by blast
  have e: "run table_parse offline ?repo ''1.0.0'' = [error_occurred ''No internet connection'']"
    using run_emits_one_signal [of table_parse offline ?repo "''1.0.0''"] offline_no_connection
    by blast
  show ?thesis
    using a b c d e by blast
qed

section \<open>The charging test: polling, events and the missing battery\<close>

lemma checks_total_30: "checks_total = 30"
  by (simp add: checks_total_def monitor_duration_def check_interval_def)

lemma true_div_check: "true_div (int check + 1) checks_total = Inr ((of_int (int check + 1)) / 30)"
  by (simp add: true_div_def checks_total_30)

lemma trace_detect [simp]: "trace (detect_charging_change t p l r) = trace r"
  by (simp add: detect_charging_change_def)

lemma trace_track [simp]: "trace (track_level_change t p l r) = trace r"
  by (simp add: track_level_change_def)





lemma errors_emit [simp]: "errors (emit e r) = errors r"
  by (simp add: emit_def)

lemma errors_set_progress [simp]: "errors (set_progress p r) = errors r"
  by (simp add: set_progress_def emit_def)

lemma errors_sleep [simp]: "errors (sleep d r) = errors r"
  by (simp add: sleep_def emit_def)

lemma errors_call_back [simp]: "errors (call_back c r) = errors r"
  by (simp add: call_back_def emit_def)

lemma errors_detect [simp]: "errors (detect_charging_change t p l r) = errors r"
  by (simp add: detect_charging_change_def)

lemma errors_track [simp]: "errors (track_level_change t p l r) = errors r"
  by (simp add: track_level_change_def)

lemma errors_throttled [simp]: "errors (throttled_callback c t r) = errors r"
  by (simp add: throttled_callback_def)







lemma worker_battery:
  assumes "first_sensor env = Battery b"
  shows "charging_test_worker env =
           analyze_results env (charging_loop env [0..<30] (charging_start env b))"
  using assms
  by (simp add: charging_test_worker_def checks_total_30)


lemma start_state:
  "last_charging_state (charging_start env b) = power_plugged b"
  "charging_events (charging_start env b) = []"
  by (simp_all add: charging_start_def Let_def charging_initial_def call_back_def emit_def)






lemma events_ops [simp]:
  "charging_events (emit e r) = charging_events r"
  "charging_events (set_progress p r) = charging_events r"
  "charging_events (sleep d r) = charging_events r"
  "charging_events (call_back c r) = charging_events r"
  "charging_events (track_level_change t pl l r) = charging_events r"
  "charging_events (throttled_callback c t r) = charging_events r"
  by (simp_all add: emit_def set_progress_def sleep_def call_back_def track_level_change_def
      throttled_callback_def)

lemma last_state_ops [simp]:
  "last_charging_state (emit e r) = last_charging_state r"
  "last_charging_state (set_progress p r) = last_charging_state r"
  "last_charging_state (sleep d r) = last_charging_state r"
  "last_charging_state (call_back c r) = last_charging_state r"
  "last_charging_state (track_level_change t pl l r) = last_charging_state r"
  "last_charging_state (throttled_callback c t r) = last_charging_state r"
  by (simp_all add: emit_def set_progress_def sleep_def call_back_def track_level_change_def
      throttled_callback_def)

lemma iteration_events_battery:
  assumes "loop_sensor env check = Battery b"
  shows "charging_events (charging_iteration env check r) =
           charging_events r @
             (if power_plugged b \<noteq> last_charging_state r
              then [event_of (loop_datetime env check) b] else [])"
    and "last_charging_state (charging_iteration env check r) = power_plugged b"
  using assms
  by (simp_all add: charging_iteration_def Let_def true_div_check detect_charging_change_def
      event_label_def event_of_def)

lemma iteration_events_failed:
  assumes "\<not> is_battery (loop_sensor env check)"
  shows "charging_events (charging_iteration env check r) = charging_events r"
    and "last_charging_state (charging_iteration env check r) = last_charging_state r"
  using assms
  by (cases "loop_sensor env check"; simp add: charging_iteration_def Let_def)+

lemma loop_events:
  "charging_events (charging_loop env checks r) =
     charging_events r @ transitions (last_charging_state r) (sampled env checks)"
proof (induction checks arbitrary: r)
  case Nil
  show ?case by simp
next
  case (Cons check checks)
  show ?case
  proof (cases "loop_testing env check")
    case False
    then show ?thesis by simp
  next
    case True
    show ?thesis
    proof (cases "loop_sensor env check")
      case (Battery b)
      with True Cons [of "charging_iteration env check r"] iteration_events_battery [OF Battery, of r]
      show ?thesis by (simp add: event_of_def)
    next
      case NoBattery
      with True Cons [of "charging_iteration env check r"] iteration_events_failed [of env check r]
      show ?thesis by simp
    next
      case (SensorError e)
      with True Cons [of "charging_iteration env check r"] iteration_events_failed [of env check r]
      show ?thesis by simp
    qed
  qed
qed

text \<open>
  C4: in a pass of the monitoring loop that samples the battery, an entry is appended to
  \<open>charging_events\<close> if and only if the sampled \<open>power_plugged\<close> differs from the last
  recorded state; the event is \<open>plugged_in\<close> when the sample is plugged and \<open>unplugged\<close>
  otherwise; and the recorded state is the sample afterwards. A pass that takes no sample
  appends nothing and keeps the recorded state. Over the passes of the loop, the events
  are the transitions of the sampled states, so consecutive identical samples record
  nothing.
\<close>

theorem charging_event_iff_state_changed:
  "(loop_sensor env check = Battery b \<longrightarrow>
      charging_events (charging_iteration env check r) =
        charging_events r @
          (if power_plugged b \<noteq> last_charging_state r
           then [\<lparr> ev_timestamp = loop_datetime env check,
                    ev_event = (if power_plugged b = Some True then ''plugged_in''
                                else ''unplugged''),
                    ev_battery_level = percent b,
                    ev_charging_state = power_plugged b \<rparr>]
           else []) \<and>
      last_charging_state (charging_iteration env check r) = power_plugged b) \<and>
   (\<not> is_battery (loop_sensor env check) \<longrightarrow>
      charging_events (charging_iteration env check r) = charging_events r \<and>
      last_charging_state (charging_iteration env check r) = last_charging_state r) \<and>
   charging_events (charging_loop env checks r) =
     charging_events r @ transitions (last_charging_state r) (sampled env checks)"
  using iteration_events_battery [of env check b r] iteration_events_failed [of env check r]
    loop_events [of env checks r]
  by (simp add: event_of_def)

theorem charging_event_iff_state_changed_witness:
  "map ev_event (charging_events (charging_iteration
      (charging_example (Battery discharging) transient_flip) 0
      (charging_start (charging_example (Battery discharging) transient_flip) discharging)))
     = [''plugged_in''] \<and>
   charging_events (charging_loop (charging_example (Battery discharging) steady) [0, 1, 2]
      (charging_start (charging_example (Battery discharging) steady) discharging)) = []"
proof -
  let ?flip = "charging_example (Battery discharging) transient_flip"
  let ?steady = "charging_example (Battery discharging) steady"
  have s: "loop_sensor ?flip 0 = Battery \<lparr>power_plugged = Some True, percent = 80\<rparr>"
    by (simp add: charging_example_def transient_flip_def)
  have l: "last_charging_state (charging_start ?flip discharging) = Some False"
    "charging_events (charging_start ?flip discharging) = []"
    "last_charging_state (charging_start ?steady discharging) = Some False"
    "charging_events (charging_start ?steady discharging) = []"
    by (simp_all add: start_state discharging_def)
  have t: "transitions (Some False) (sampled ?steady [0, 1, 2]) = []"
    by (simp add: charging_example_def steady_def discharging_def)
  have a: "charging_events (charging_iteration ?flip 0 (charging_start ?flip discharging)) =
      charging_events (charging_start ?flip discharging) @
        [\<lparr> ev_timestamp = loop_datetime ?flip 0, ev_event = ''plugged_in'',
            ev_battery_level = 80, ev_charging_state = Some True \<rparr>]"
    using charging_event_iff_state_changed [of ?flip 0
        "\<lparr>power_plugged = Some True, percent = 80\<rparr>" "charging_start ?flip discharging" "[]"]
    by (simp add: s l)
  have b: "charging_events (charging_loop ?steady [0, 1, 2] (charging_start ?steady discharging)) =
      charging_events (charging_start ?steady discharging) @
        transitions (last_charging_state (charging_start ?steady discharging))
          (sampled ?steady [0, 1, 2])"
    using charging_event_iff_state_changed [of ?steady 0 discharging
        "charging_start ?steady discharging" "[0, 1, 2]"]
    by blast
  show ?thesis
    unfolding a b by (simp only: l t) simp
qed

text \<open>
  C3, as the claim states it, fails: the monitor has no debouncing. With the battery
  unplugged at the start, plugged in the first sample only and unplugged in every later
  sample, the run records the pair \<open>plugged_in\<close>, \<open>unplugged\<close>.
\<close>

theorem transient_flip_counterexample:
  "map (\<lambda>check. loop_sensor (charging_example (Battery discharging) transient_flip) check)
       [0, 1, 2]
     = [Battery \<lparr>power_plugged = Some True, percent = 80\<rparr>, Battery discharging,
        Battery discharging] \<and>
   map ev_event (charging_events
       (charging_test_worker (charging_example (Battery discharging) transient_flip)))
     = [''plugged_in'', ''unplugged'']"
  by code_simp

text \<open>
  C3, amended: a change in the sampled \<open>power_plugged\<close> state is recorded as a charging
  event in the very pass that samples it, without any wait for the state to persist; so
  a flip visible in exactly one sample (a sample that differs from the recorded state,
  followed by a sample equal to it) records a pair of events, one for each of the two
  samples.
\<close>

theorem flip_in_one_sample_gives_two_events:
  assumes "loop_sensor env check = Battery b1"
    and "loop_sensor env (Suc check) = Battery b2"
    and "power_plugged b1 \<noteq> last_charging_state r"
    and "power_plugged b2 = last_charging_state r"
  shows "map ev_charging_state (charging_events (charging_iteration env check r)) =
           map ev_charging_state (charging_events r) @ [power_plugged b1] \<and>
         map ev_charging_state (charging_events
             (charging_iteration env (Suc check) (charging_iteration env check r))) =
           map ev_charging_state (charging_events r) @ [power_plugged b1, power_plugged b2] \<and>
         map ev_event (charging_events
             (charging_iteration env (Suc check) (charging_iteration env check r))) =
           map ev_event (charging_events r) @ [event_label (power_plugged b1),
              event_label (power_plugged b2)]"
  using assms iteration_events_battery [OF assms(1), of r]
    iteration_events_battery [OF assms(2), of "charging_iteration env check r"]
  by (auto simp: event_of_def event_label_def)

theorem flip_in_one_sample_gives_two_events_witness:
  "map ev_event (charging_events
      (charging_iteration (charging_example (Battery discharging) transient_flip) 1
        (charging_iteration (charging_example (Battery discharging) transient_flip) 0
          (charging_start (charging_example (Battery discharging) transient_flip) discharging))))
     = [''plugged_in'', ''unplugged'']"
proof -
  let ?flip = "charging_example (Battery discharging) transient_flip"
  have s: "loop_sensor ?flip 0 = Battery \<lparr>power_plugged = Some True, percent = 80\<rparr>"
    "loop_sensor ?flip (Suc 0) = Battery \<lparr>power_plugged = Some False, percent = 80\<rparr>"
    by (simp_all add: charging_example_def transient_flip_def)
  have l: "last_charging_state (charging_start ?flip discharging) = Some False"
    "charging_events (charging_start ?flip discharging) = []"
    by (simp_all add: start_state discharging_def)
  show ?thesis
    using flip_in_one_sample_gives_two_events [OF s, of "charging_start ?flip discharging"]
    by (simp add: l event_label_def)
qed

text \<open>
  C10: when \<^verbatim>\<open>psutil.sensors_battery()\<close> returns \<^verbatim>\<open>None\<close> at the start of the charging test,
  the worker ends without a pass of the polling loop (no query, no sample, no sleep), with
  status \<open>Completed\<close>, \<open>battery_support\<close> false, progress 100 and the explanatory message
  in \<open>errors\<close>.
\<close>

theorem no_battery_ends_at_once:
  assumes "first_sensor env = NoBattery"
  shows "status (charging_test_worker env) = Completed \<and>
         battery_support (charging_test_worker env) = False \<and>
         progress (charging_test_worker env) = Some 100 \<and>
         errors (charging_test_worker env) =
           [''No battery detected - this test requires a laptop/device with battery''] \<and>
         trace (charging_test_worker env) =
           [SetStatus Completed, SetProgress 100, ClearTesting] @
           (if ch_callback env then [Callback (Some 100) Completed] else []) \<and>
         polls (trace (charging_test_worker env)) = [] \<and>
         samples (trace (charging_test_worker env)) = [] \<and>
         slept (trace (charging_test_worker env)) = 0 \<and>
         charging_events (charging_test_worker env) = []"
  using assms
  by (simp add: charging_test_worker_def Let_def charging_initial_def set_status_def
      set_progress_def emit_def call_back_def polls_def samples_def slept_def)

theorem no_battery_ends_at_once_witness:
  "status (charging_test_worker (charging_example NoBattery steady)) = Completed \<and>
   progress (charging_test_worker (charging_example NoBattery steady)) = Some 100 \<and>
   battery_support (charging_test_worker (charging_example NoBattery steady)) = False \<and>
   trace (charging_test_worker (charging_example NoBattery steady)) =
     [SetStatus Completed, SetProgress 100, ClearTesting, Callback (Some 100) Completed]"
proof -
  have f: "first_sensor (charging_example NoBattery steady) = NoBattery"
    and c: "ch_callback (charging_example NoBattery steady)"
    by (simp_all add: charging_example_def)
  show ?thesis
    using no_battery_ends_at_once [OF f] c by simp
qed

section \<open>The memory test: allocation, verification and the integrity check\<close>

lemma blocks_append [simp]: "blocks (xs @ ys) = blocks xs @ blocks ys"
  by (simp add: blocks_def)

lemma allocate_block_cases:
  assumes "alloc_error env i = None" and "int i < n"
  shows "\<exists>r' p cb. allocate_block env n i r = Inr r' \<and>
           trace r' = trace r @ [Allocate i, SetProgress p] @ cb @ [Sleep (1 / 10)] \<and>
           0 \<le> p \<and> p \<le> 50 \<and> list_all is_callback cb \<and>
           memory_blocks r' = memory_blocks r @ [map (getrandbits env i) [0..<block_size]] \<and>
           blocks_tested r' = int i + 1 \<and> errors_found r' = errors_found r \<and>
           test_size_mb r' = test_size_mb r"
proof -
  obtain q where q: "true_div (int i + 1) n = Inr q" "0 \<le> q" "q \<le> 1"
    using true_div_unit [of "int i + 1" n] assms(2) by auto
  have b: "0 \<le> py_int (q * 50)" "py_int (q * 50) \<le> 50"
    using py_int_bounds [of 0 "q * 50" 50] q by simp_all
  show ?thesis
    using assms(1) q(1) b
    by (simp add: allocate_block_def Let_def call_back_def emit_def sleep_def set_progress_def)
qed

lemma allocate_loop_complete:
  assumes "list_all (alloc_testing env) is"
    and "list_all (\<lambda>i. alloc_error env i = None) is"
    and "list_all (\<lambda>i. int i < n) is"
  shows "\<exists>r' t. allocate_loop env n is r = Inr r' \<and> trace r' = trace r @ t \<and>
           blocks t = map Allocate is \<and> list_all (progress_within 0 50) t \<and>
           memory_blocks r' =
             memory_blocks r @ map (\<lambda>i. map (getrandbits env i) [0..<block_size]) is \<and>
           blocks_tested r' = (if is = [] then blocks_tested r else int (last is) + 1) \<and>
           errors_found r' = errors_found r \<and> test_size_mb r' = test_size_mb r"
  using assms
proof (induction "is" arbitrary: r)
  case Nil
  then show ?case by (simp add: blocks_def)
next
  case (Cons i "is")
  obtain r1 p cb where r1: "allocate_block env n i r = Inr r1"
    "trace r1 = trace r @ [Allocate i, SetProgress p] @ cb @ [Sleep (1 / 10)]"
    "0 \<le> p" "p \<le> 50" "list_all is_callback cb"
    "memory_blocks r1 = memory_blocks r @ [map (getrandbits env i) [0..<block_size]]"
    "blocks_tested r1 = int i + 1" "errors_found r1 = errors_found r"
    "test_size_mb r1 = test_size_mb r"
    using allocate_block_cases [of env i n r] Cons.prems by auto
  obtain r' t where r': "allocate_loop env n is r1 = Inr r'" "trace r' = trace r1 @ t"
    "blocks t = map Allocate is" "list_all (progress_within 0 50) t"
    "memory_blocks r' =
       memory_blocks r1 @ map (\<lambda>i. map (getrandbits env i) [0..<block_size]) is"
    "blocks_tested r' = (if is = [] then blocks_tested r1 else int (last is) + 1)"
    "errors_found r' = errors_found r1" "test_size_mb r' = test_size_mb r1"
    using Cons.IH [of r1] Cons.prems by auto
  have cb: "blocks cb = []" "list_all (progress_within 0 50) cb"
    using r1(5) by (induction cb; simp add: blocks_def; case_tac a; simp)+
  let ?t = "[Allocate i, SetProgress p] @ cb @ [Sleep (1 / 10)] @ t"
  have "allocate_loop env n (i # is) r = Inr r'"
    using Cons.prems r1(1) r'(1) by simp
  moreover have "trace r' = trace r @ ?t"
    using r1(2) r'(2) by simp
  moreover have "blocks ?t = map Allocate (i # is)"
    using cb(1) r'(3) by (simp add: blocks_def)
  moreover have "list_all (progress_within 0 50) ?t"
    using cb(2) r'(4) r1(3,4) by simp
  moreover have "memory_blocks r' =
      memory_blocks r @ map (\<lambda>i. map (getrandbits env i) [0..<block_size]) (i # is)"
    using r1(6) r'(5) by simp
  moreover have "blocks_tested r' = int (last (i # is)) + 1"
    using r1(7) r'(6) by simp
  moreover have "errors_found r' = errors_found r" "test_size_mb r' = test_size_mb r"
    using r1(8,9) r'(7,8) by simp_all
  ultimately show ?case
    by (intro exI [of _ r'] exI [of _ ?t]) simp
qed

lemma verify_data_errors:
  "verify_data env i block r =
     (if checksum_error env i then r\<lparr>errors_found := errors_found r + 1\<rparr> else r)"
  by (simp add: verify_data_def)

lemma verify_block_cases:
  assumes "int i < int (length (memory_blocks r))"
  shows "\<exists>r' p cb. verify_block env i block r = Inr r' \<and>
           trace r' = trace r @ [Verify i, SetProgress p] @ cb @ [Sleep (5 / 100)] \<and>
           50 \<le> p \<and> p \<le> 100 \<and> list_all is_callback cb \<and>
           memory_blocks r' = memory_blocks r \<and> blocks_tested r' = blocks_tested r \<and>
           errors_found r' = errors_found r + (if checksum_error env i then 1 else 0)"
proof -
  obtain q where q: "true_div (int i + 1) (int (length (memory_blocks r))) = Inr q"
    "0 \<le> q" "q \<le> 1"
    using true_div_unit [of "int i + 1" "int (length (memory_blocks r))"] assms by auto
  have b: "50 \<le> py_int (50 + q * 50)" "py_int (50 + q * 50) \<le> 100"
    using py_int_bounds [of 50 "50 + q * 50" 100] q by simp_all
  show ?thesis
    using q(1) b
    by (simp add: verify_block_def verify_data_errors Let_def call_back_def emit_def sleep_def
        set_progress_def)
qed

lemma verify_loop_complete:
  assumes "list_all (verify_testing env) (map fst ibs)"
    and "list_all (\<lambda>i. i < length (memory_blocks r)) (map fst ibs)"
  shows "\<exists>r' t. verify_loop env ibs r = Inr r' \<and> trace r' = trace r @ t \<and>
           blocks t = map Verify (map fst ibs) \<and> list_all (progress_within 50 100) t \<and>
           blocks_tested r' = blocks_tested r \<and>
           errors_found r' =
             errors_found r + int (length (filter (checksum_error env) (map fst ibs)))"
  using assms
proof (induction ibs arbitrary: r)
  case Nil
  then show ?case by (simp add: blocks_def)
next
  case (Cons ib ibs)
  obtain i block where ib: "ib = (i, block)"
    by (cases ib)
  obtain r1 p cb where r1: "verify_block env i block r = Inr r1"
    "trace r1 = trace r @ [Verify i, SetProgress p] @ cb @ [Sleep (5 / 100)]"
    "50 \<le> p" "p \<le> 100" "list_all is_callback cb"
    "memory_blocks r1 = memory_blocks r" "blocks_tested r1 = blocks_tested r"
    "errors_found r1 = errors_found r + (if checksum_error env i then 1 else 0)"
    using verify_block_cases [of i r env block] Cons.prems ib by auto
  obtain r' t where r': "verify_loop env ibs r1 = Inr r'" "trace r' = trace r1 @ t"
    "blocks t = map Verify (map fst ibs)" "list_all (progress_within 50 100) t"
    "blocks_tested r' = blocks_tested r1"
    "errors_found r' =
       errors_found r1 + int (length (filter (checksum_error env) (map fst ibs)))"
    using Cons.IH [of r1] Cons.prems r1(6) by auto
  have cb: "blocks cb = []" "list_all (progress_within 50 100) cb"
    using r1(5) by (induction cb; simp add: blocks_def; case_tac a; simp)+
  let ?t = "[Verify i, SetProgress p] @ cb @ [Sleep (5 / 100)] @ t"
  have "verify_loop env (ib # ibs) r = Inr r'"
    using Cons.prems r1(1) r'(1) ib by simp
  moreover have "trace r' = trace r @ ?t"
    using r1(2) r'(2) by simp
  moreover have "blocks ?t = map Verify (map fst (ib # ibs))"
    using cb(1) r'(3) ib by (simp add: blocks_def)
  moreover have "list_all (progress_within 50 100) ?t"
    using cb(2) r'(4) r1(3,4) by simp
  moreover have "blocks_tested r' = blocks_tested r"
    using r1(7) r'(5) by simp
  moreover have "errors_found r' =
      errors_found r + int (length (filter (checksum_error env) (map fst (ib # ibs))))"
    using r1(8) r'(6) ib by simp
  ultimately show ?case
    by (intro exI [of _ r'] exI [of _ ?t]) simp
qed

lemma allocate_block_any:
  assumes "int i < n" and "while_running r"
  shows "while_running (outcome_state (allocate_block env n i r))"
    and "errors_found (outcome_state (allocate_block env n i r)) = errors_found r"
proof -
  obtain q where q: "true_div (int i + 1) n = Inr q" "0 \<le> q" "q \<le> 1"
    using true_div_unit [of "int i + 1" n] assms(1) by auto
  have b: "0 \<le> py_int (q * 50)" "py_int (q * 50) \<le> 100"
    using py_int_bounds [of 0 "q * 50" 50] q by simp_all
  let ?r1 = "(emit (Allocate i)
      (r\<lparr>memory_blocks := memory_blocks r @ [map (getrandbits env i) [0..<block_size]]\<rparr>))
      \<lparr>blocks_tested := int i + 1\<rparr>"
  let ?r2 = "(set_progress (py_int (q * 50)) ?r1)
      \<lparr>memory_usage := memory_usage (set_progress (py_int (q * 50)) ?r1) @
          [\<lparr> mu_time = i, mu_used_percent = fst (virtual_memory env i),
             mu_used_gb = snd (virtual_memory env i) / 1024 ^ 3 \<rparr>]\<rparr>"
  have "while_running ?r1"
    using assms(2) by (simp add: while_running_def progress_in_range_def)
  then have "while_running (set_progress (py_int (q * 50)) ?r1)"
    using b by (rule while_running_set_progress)
  then have "while_running ?r2"
    by (rule while_running_cong) simp_all
  then have w: "while_running (sleep (1 / 10) (call_back (mem_callback env) ?r2))"
    by (intro while_running_sleep while_running_call_back)
  show "while_running (outcome_state (allocate_block env n i r))"
    using w assms(2) q(1) by (simp add: allocate_block_def Let_def split: option.split)
  show "errors_found (outcome_state (allocate_block env n i r)) = errors_found r"
    using q(1)
    by (simp add: allocate_block_def Let_def call_back_def emit_def sleep_def set_progress_def
        split: option.split)
qed

lemma allocate_loop_any:
  assumes "list_all (\<lambda>i. int i < n) is" and "while_running r"
  shows "while_running (outcome_state (allocate_loop env n is r)) \<and>
         errors_found (outcome_state (allocate_loop env n is r)) = errors_found r"
  using assms
proof (induction "is" arbitrary: r)
  case Nil
  then show ?case by simp
next
  case (Cons i "is")
  show ?case
  proof (cases "alloc_testing env i")
    case False
    with Cons.prems show ?thesis by simp
  next
    case True
    have a: "while_running (outcome_state (allocate_block env n i r))"
      "errors_found (outcome_state (allocate_block env n i r)) = errors_found r"
      using allocate_block_any [of i n r env] Cons.prems by simp_all
    show ?thesis
    proof (cases "allocate_block env n i r")
      case (Inl raised)
      with a True show ?thesis by (cases raised) simp
    next
      case (Inr r1)
      with a True Cons.IH [of r1] Cons.prems show ?thesis by simp
    qed
  qed
qed

lemma verify_block_any:
  assumes "i < length (memory_blocks r)" and "while_running r"
  shows "\<exists>r'. verify_block env i block r = Inr r' \<and> while_running r' \<and>
           memory_blocks r' = memory_blocks r \<and>
           errors_found r' = errors_found r + (if checksum_error env i then 1 else 0)"
proof -
  obtain q where q: "true_div (int i + 1) (int (length (memory_blocks r))) = Inr q"
    "0 \<le> q" "q \<le> 1"
    using true_div_unit [of "int i + 1" "int (length (memory_blocks r))"] assms(1) by auto
  have b: "0 \<le> py_int (50 + q * 50)" "py_int (50 + q * 50) \<le> 100"
    using py_int_bounds [of 50 "50 + q * 50" 100] q by simp_all
  let ?r1 = "verify_data env i block (emit (Verify i) r)"
  have "while_running (emit (Verify i) r)"
    using assms(2) by (simp add: while_running_emit)
  then have "while_running ?r1"
    by (rule while_running_cong) (simp_all add: verify_data_errors)
  then have "while_running (set_progress (py_int (50 + q * 50)) ?r1)"
    using b by (rule while_running_set_progress)
  then have w: "while_running (sleep (5 / 100)
      (call_back (mem_callback env) (set_progress (py_int (50 + q * 50)) ?r1)))"
    by (intro while_running_sleep while_running_call_back)
  have m: "memory_blocks ?r1 = memory_blocks r"
    by (simp add: verify_data_errors emit_def)
  have v: "verify_block env i block r = Inr (sleep (5 / 100)
      (call_back (mem_callback env) (set_progress (py_int (50 + q * 50)) ?r1)))"
    using q(1) by (simp add: verify_block_def Let_def m)
  show ?thesis
    unfolding v using w
    by (simp add: verify_data_errors call_back_def emit_def sleep_def set_progress_def)
qed

lemma verify_loop_any:
  assumes "list_all (\<lambda>i. i < length (memory_blocks r)) (map fst ibs)" and "while_running r"
  shows "\<exists>r'. verify_loop env ibs r = Inr r' \<and> while_running r' \<and>
           ((\<forall>i. \<not> checksum_error env i) \<longrightarrow> errors_found r' = errors_found r)"
  using assms
proof (induction ibs arbitrary: r)
  case Nil
  then show ?case by simp
next
  case (Cons ib ibs)
  obtain i block where ib: "ib = (i, block)"
    by (cases ib)
  show ?case
  proof (cases "verify_testing env i")
    case False
    with Cons.prems ib show ?thesis by simp
  next
    case True
    obtain r1 where r1: "verify_block env i block r = Inr r1" "while_running r1"
      "memory_blocks r1 = memory_blocks r"
      "errors_found r1 = errors_found r + (if checksum_error env i then 1 else 0)"
      using verify_block_any [of i r env block] Cons.prems ib by auto
    obtain r' where r': "verify_loop env ibs r1 = Inr r'" "while_running r'"
      "(\<forall>i. \<not> checksum_error env i) \<longrightarrow> errors_found r' = errors_found r1"
      using Cons.IH [of r1] Cons.prems r1(2,3) by auto
    show ?thesis
      using True ib r1 r' by simp
  qed
qed

lemma while_running_memory_initial: "while_running (memory_initial n)"
  by (simp add: while_running_def progress_in_range_def memory_initial_def)

lemma memory_finish_fields:
  "trace (memory_finish env r) =
     trace r @ [SetProgress 100, SetStatus (final_status (mem_end_testing env)), ClearTesting] @
     (if mem_callback env then [Callback (Some 100) (final_status (mem_end_testing env))] else [])"
  "progress (memory_finish env r) = Some 100"
  "status (memory_finish env r) = final_status (mem_end_testing env)"
  "errors_found (memory_finish env r) = errors_found r"
  "blocks_tested (memory_finish env r) = blocks_tested r"
  "test_size_mb (memory_finish env r) = test_size_mb r"
  by (simp_all add: memory_finish_def Let_def call_back_def emit_def set_progress_def
      set_status_def)

lemma memory_handler_fields:
  "trace (memory_handler env (e, r)) =
     trace r @ [SetStatus Error, ClearTesting] @
     (if mem_callback env then [Callback (progress r) Error] else [])"
  "progress (memory_handler env (e, r)) = progress r"
  "status (memory_handler env (e, r)) = Error"
  "errors_found (memory_handler env (e, r)) = errors_found r"
  by (simp_all add: memory_handler_def Let_def call_back_def emit_def set_status_def)

text \<open>Every run of the memory test, stopped or not, with or without an exception.\<close>

lemma memory_test_any:
  "progress_in_range (memory_test_worker env n)"
  "full_when_finished (memory_test_worker env n)"
  "full_when_status_set None (trace (memory_test_worker env n))"
  "(\<forall>i. \<not> checksum_error env i) \<Longrightarrow> errors_found (memory_test_worker env n) = 0"
proof -
  let ?a = "allocation_phase env n"
  have a: "while_running (outcome_state ?a)" "errors_found (outcome_state ?a) = 0"
    using allocate_loop_any [of n "[0..<nat n]" "memory_initial n" env,
        OF upt_below while_running_memory_initial]
    by (simp_all add: allocation_phase_def memory_initial_def)
  have "progress_in_range (memory_test_worker env n) \<and>
        full_when_finished (memory_test_worker env n) \<and>
        full_when_status_set None (trace (memory_test_worker env n)) \<and>
        ((\<forall>i. \<not> checksum_error env i) \<longrightarrow> errors_found (memory_test_worker env n) = 0)"
  proof (cases ?a)
    case (Inl raised)
    obtain e r where raised: "raised = (e, r)"
      by (cases raised)
    have w: "while_running r" "errors_found r = 0"
      using a Inl raised by simp_all
    have m: "memory_test_worker env n = memory_handler env (e, r)"
      using Inl raised by (simp add: memory_test_worker_def)
    show ?thesis
      unfolding m
      using handler_leaves [where initial = None, OF w(1) memory_handler_fields(1-3)]
      by (simp add: memory_handler_fields(4) w(2))
  next
    case (Inr ra)
    have w: "while_running ra" "errors_found ra = 0"
      using a Inr by simp_all
    have "list_all (\<lambda>i. i < length (memory_blocks ra)) (map fst (enumerate 0 (memory_blocks ra)))"
      by (simp add: list_all_iff)
    then obtain rv where rv: "verification_phase env ra = Inr rv" "while_running rv"
      "(\<forall>i. \<not> checksum_error env i) \<longrightarrow> errors_found rv = errors_found ra"
      using verify_loop_any [of ra "enumerate 0 (memory_blocks ra)" env] w(1)
      by (auto simp: verification_phase_def)
    have m: "memory_test_worker env n = memory_finish env rv"
      using Inr rv(1) by (simp add: memory_test_worker_def)
    show ?thesis
      unfolding m
      using finish_progress_first [where initial = None, OF rv(2) memory_finish_fields(1-3)]
        rv(3) w(2)
      by (simp add: memory_finish_fields(4))
  qed
  then show "progress_in_range (memory_test_worker env n)"
    "full_when_finished (memory_test_worker env n)"
    "full_when_status_set None (trace (memory_test_worker env n))"
    "(\<forall>i. \<not> checksum_error env i) \<Longrightarrow> errors_found (memory_test_worker env n) = 0"
    by simp_all
qed

lemma allocate_loop_append:
  assumes "list_all (alloc_testing env) xs"
  shows "allocate_loop env n (xs @ ys) r =
           (case allocate_loop env n xs r of
              Inl raised \<Rightarrow> Inl raised
            | Inr r' \<Rightarrow> allocate_loop env n ys r')"
  using assms
proof (induction xs arbitrary: r)
  case Nil
  then show ?case by simp
next
  case (Cons x xs)
  then show ?case
    by (cases "allocate_block env n x r") simp_all
qed

text \<open>
  An exception in the allocation of block \<open>k\<close>, with the flag set until then: the worker
  ends in its handler with the \<open>k\<close> blocks allocated before.
\<close>

lemma memory_test_raises:
  assumes "k < nat size_mb"
    and "list_all (alloc_testing env) [0..<Suc k]"
    and "list_all (\<lambda>i. alloc_error env i = None) [0..<k]"
    and "alloc_error env k = Some e"
  shows "blocks_tested (memory_test_worker env size_mb) = int k \<and>
         test_size_mb (memory_test_worker env size_mb) = size_mb \<and>
         status (memory_test_worker env size_mb) = Error \<and>
         mem_error (memory_test_worker env size_mb) = Some e"
proof -
  let ?r0 = "memory_initial size_mb"
  have split: "[0..<nat size_mb] = [0..<k] @ (k # [Suc k..<nat size_mb])"
  proof -
    have "[0..<k + (nat size_mb - k)] = [0..<k] @ [k..<k + (nat size_mb - k)]"
      by (rule upt_add_eq_append) simp
    then have "[0..<nat size_mb] = [0..<k] @ [k..<nat size_mb]"
      using assms(1) by simp
    then show ?thesis
      using assms(1) by (simp add: upt_conv_Cons)
  qed
  have t: "list_all (alloc_testing env) [0..<k]" "alloc_testing env k"
    using assms(2) by (simp_all add: list_all_iff)
  have below: "list_all (\<lambda>i. int i < size_mb) [0..<k]"
    using assms(1) by (auto simp: list_all_iff)
  obtain ra where ra: "allocate_loop env size_mb [0..<k] ?r0 = Inr ra"
    "blocks_tested ra = (if [0..<k] = [] then blocks_tested ?r0 else int (last [0..<k]) + 1)"
    "test_size_mb ra = test_size_mb ?r0"
    using allocate_loop_complete [OF t(1) assms(3) below, of ?r0] by auto
  have tested: "blocks_tested ra = int k"
  proof (cases "k = 0")
    case True
    with ra(2) show ?thesis by (simp add: memory_initial_def)
  next
    case False
    then have "last [0..<k] = k - 1"
      by simp
    with False ra(2) show ?thesis by simp
  qed
  have "allocate_loop env size_mb (k # [Suc k..<nat size_mb]) ra = Inl (e, ra)"
    using t(2) assms(4) by (simp add: allocate_block_def)
  then have "allocation_phase env size_mb = Inl (e, ra)"
    unfolding allocation_phase_def split
    by (simp add: allocate_loop_append [OF t(1)] ra(1))
  then have "memory_test_worker env size_mb = memory_handler env (e, ra)"
    by (simp add: memory_test_worker_def)
  then show ?thesis
    using tested ra(3)
    by (simp add: memory_handler_def Let_def call_back_def emit_def set_status_def
        memory_initial_def)
qed

text \<open>
  C6, as the claim states it, fails: in this run the flag is never cleared, so the run is
  not stopped early, and the allocation of the third of ten blocks raises; the worker
  ends in its handler with \<open>blocks_tested\<close> at 2 and \<open>test_size_mb\<close> at 10.
\<close>

theorem memory_allocation_raises_counterexample:
  "not_stopped (alloc_testing memory_failing) 10 \<and>
   not_stopped (verify_testing memory_failing) 10 \<and>
   test_size_mb (memory_test_worker memory_failing 10) = 10 \<and>
   blocks_tested (memory_test_worker memory_failing 10) = 2 \<and>
   status (memory_test_worker memory_failing 10) = Error"
proof -
  have a: "(2::nat) < nat 10"
    by simp
  have b: "list_all (alloc_testing memory_failing) [0..<Suc 2]"
    "list_all (\<lambda>i. alloc_error memory_failing i = None) [0..<2]"
    "alloc_error memory_failing 2 = Some ''''"
    by (simp_all add: memory_failing_def memory_example_def list_all_iff)
  have c: "not_stopped (alloc_testing memory_failing) 10"
    "not_stopped (verify_testing memory_failing) 10"
    by (simp_all add: not_stopped_def memory_failing_def memory_example_def list_all_iff)
  show ?thesis
    using memory_test_raises [OF a b] c by simp
qed

text \<open>
  C6, amended: the memory test allocates blocks of 1024 * 1024 random bytes while the
  progress stays within 0 and 50, then verifies each allocated block with a checksum,
  the sum of its bytes modulo 256, while the progress stays within 50 and 100; the check
  of a block adds one to \<open>errors_found\<close> when it raises or when the checksum differs from
  the sum computed again. In every run that is not stopped early and in which the
  allocation raises no exception, \<open>test_size_mb\<close> blocks are allocated and then verified
  in order, \<open>errors_found\<close> ends as the number of blocks whose check failed, and
  \<open>blocks_tested\<close> ends equal to \<open>test_size_mb\<close> (0, with no block, when \<open>test_size_mb\<close>
  is negative).
\<close>

theorem memory_test_complete_run:
  assumes "not_stopped (alloc_testing env) size_mb"
    and "not_stopped (verify_testing env) size_mb"
    and "list_all (\<lambda>i. alloc_error env i = None) [0..<nat size_mb]"
  shows "\<exists>ra rv.
           allocation_phase env size_mb = Inr ra \<and>
           verification_phase env ra = Inr rv \<and>
           memory_test_worker env size_mb = memory_finish env rv \<and>
           memory_blocks ra =
             map (\<lambda>i. map (getrandbits env i) [0..<1024 * 1024]) [0..<nat size_mb] \<and>
           blocks (trace ra) = map Allocate [0..<nat size_mb] \<and>
           list_all (progress_within 0 50) (trace ra) \<and>
           blocks (added ra rv) = map Verify [0..<nat size_mb] \<and>
           list_all (progress_within 50 100) (added ra rv) \<and>
           (\<forall>i block r.
              verify_data env i block r =
                (if checksum_error env i \<or>
                    sum_list (map uint block) mod 256 \<noteq> sum_block block mod 256
                 then r\<lparr>errors_found := errors_found r + 1\<rparr> else r)) \<and>
           errors_found (memory_test_worker env size_mb) =
             int (length (filter
               (\<lambda>i. checksum_error env i \<or>
                  sum_list (map uint (memory_blocks ra ! i)) mod 256 \<noteq>
                    sum_block (memory_blocks ra ! i) mod 256)
               [0..<nat size_mb])) \<and>
           errors_found (memory_test_worker env size_mb) =
             int (length (filter (checksum_error env) [0..<nat size_mb])) \<and>
           blocks_tested (memory_test_worker env size_mb) =
             (if 0 \<le> size_mb then size_mb else 0) \<and>
           test_size_mb (memory_test_worker env size_mb) = size_mb"
proof -
  let ?is = "[0..<nat size_mb]"
  obtain ra t where ra: "allocation_phase env size_mb = Inr ra"
    "trace ra = trace (memory_initial size_mb) @ t"
    "blocks t = map Allocate ?is" "list_all (progress_within 0 50) t"
    "memory_blocks ra = memory_blocks (memory_initial size_mb) @
       map (\<lambda>i. map (getrandbits env i) [0..<block_size]) ?is"
    "blocks_tested ra =
       (if ?is = [] then blocks_tested (memory_initial size_mb) else int (last ?is) + 1)"
    "errors_found ra = errors_found (memory_initial size_mb)"
    "test_size_mb ra = test_size_mb (memory_initial size_mb)"
    using allocate_loop_complete [of env ?is size_mb "memory_initial size_mb"] assms(1,3)
      upt_below [of size_mb]
    by (auto simp: allocation_phase_def not_stopped_def)
  have len: "length (memory_blocks ra) = nat size_mb"
    using ra(5) by (simp add: memory_initial_def)
  have idx: "map fst (enumerate 0 (memory_blocks ra)) = ?is"
    by (simp add: len)
  obtain rv u where rv: "verification_phase env ra = Inr rv" "trace rv = trace ra @ u"
    "blocks u = map Verify ?is" "list_all (progress_within 50 100) u"
    "blocks_tested rv = blocks_tested ra"
    "errors_found rv = errors_found ra + int (length (filter (checksum_error env) ?is))"
    using verify_loop_complete [of env "enumerate 0 (memory_blocks ra)" ra] assms(2)
    unfolding idx verification_phase_def
    by (auto simp: not_stopped_def len list_all_iff)
  have w: "memory_test_worker env size_mb = memory_finish env rv"
    using ra(1) rv(1) by (simp add: memory_test_worker_def)
  have tested: "blocks_tested ra = (if 0 \<le> size_mb then size_mb else 0)"
  proof (cases "nat size_mb = 0")
    case True
    with ra(6) show ?thesis by (simp add: memory_initial_def)
  next
    case False
    then have "last ?is = nat size_mb - 1"
      by simp
    with False ra(6) show ?thesis by simp
  qed
  have check: "\<forall>i block r.
      verify_data env i block r =
        (if checksum_error env i \<or>
            sum_list (map uint block) mod 256 \<noteq> sum_block block mod 256
         then r\<lparr>errors_found := errors_found r + 1\<rparr> else r)"
    by (simp add: verify_data_def sum_block_def)
  have failed: "filter
      (\<lambda>i. checksum_error env i \<or>
         sum_list (map uint (memory_blocks ra ! i)) mod 256 \<noteq>
           sum_block (memory_blocks ra ! i) mod 256) ?is =
      filter (checksum_error env) ?is"
    by (simp add: sum_block_def)
  have "memory_blocks ra =
      map (\<lambda>i. map (getrandbits env i) [0..<1024 * 1024]) ?is"
    using ra(5) by (simp add: memory_initial_def block_size_def)
  moreover have "blocks (trace ra) = map Allocate ?is"
    "list_all (progress_within 0 50) (trace ra)"
    using ra(2,3,4) by (simp_all add: memory_initial_def)
  moreover have "blocks (added ra rv) = map Verify ?is"
    "list_all (progress_within 50 100) (added ra rv)"
    using rv(2,3,4) by (simp_all add: added_append)
  moreover have e: "errors_found (memory_test_worker env size_mb) =
      int (length (filter (checksum_error env) ?is))"
    using rv(6) ra(7) by (simp add: w memory_finish_fields memory_initial_def)
  moreover have "errors_found (memory_test_worker env size_mb) =
      int (length (filter
        (\<lambda>i. checksum_error env i \<or>
           sum_list (map uint (memory_blocks ra ! i)) mod 256 \<noteq>
             sum_block (memory_blocks ra ! i) mod 256) ?is))"
    unfolding failed by (rule e)
  moreover have "blocks_tested (memory_test_worker env size_mb) =
      (if 0 \<le> size_mb then size_mb else 0)"
    using rv(5) tested by (simp add: w memory_finish_fields)
  moreover have "test_size_mb (memory_test_worker env size_mb) = size_mb"
  proof -
    have "verify_loop env ibs r = Inr r' \<Longrightarrow> test_size_mb r' = test_size_mb r" for ibs r r'
    proof (induction ibs arbitrary: r)
      case Nil
      then show ?case by simp
    next
      case (Cons ib ibs)
      obtain i block where ib: "ib = (i, block)"
        by (cases ib)
      show ?case
      proof (cases "verify_testing env i")
        case False
        with Cons.prems ib show ?thesis by simp
      next
        case True
        with Cons.prems ib obtain r1 where r1: "verify_block env i block r = Inr r1"
          "verify_loop env ibs r1 = Inr r'"
          by (auto split: sum.splits)
        have "test_size_mb r1 = test_size_mb r"
          using r1(1)
          by (auto simp: verify_block_def verify_data_errors Let_def call_back_def emit_def
              sleep_def set_progress_def split: sum.splits if_splits)
        with Cons.IH [OF r1(2)] show ?thesis by simp
      qed
    qed
    with rv(1) have "test_size_mb rv = test_size_mb ra"
      by (simp add: verification_phase_def)
    with ra(8) show ?thesis
      by (simp add: w memory_finish_fields memory_initial_def)
  qed
  ultimately show ?thesis
    using ra(1) rv(1) w check by blast
qed

lemma memory_example_complete:
  "not_stopped (alloc_testing memory_example) n"
  "not_stopped (verify_testing memory_example) n"
  "list_all (\<lambda>i. alloc_error memory_example i = None) [0..<nat n]"
  by (simp_all add: not_stopped_def memory_example_def list_all_iff)

theorem memory_test_complete_run_witness:
  "blocks_tested (memory_test_worker memory_example 10) = 10 \<and>
   errors_found (memory_test_worker memory_example 10) = 0"
proof -
  have "filter (checksum_error memory_example) [0..<nat 10] = []"
    by (simp add: memory_example_def)
  then show ?thesis
    using memory_test_complete_run [OF memory_example_complete, of 10]
    by auto
qed

text \<open>
  C7: the integrity check compares a checksum with the same sum computed again, so its
  mismatch branch is never taken: the check of a block adds to \<open>errors_found\<close> only when
  it raises. In every run of the memory test in which no exception is raised during
  verification, \<open>errors_found\<close> is 0 at the end, whatever the blocks hold and whether or
  not the run is stopped or ends in the handler.
\<close>

theorem memory_check_reports_nothing:
  "verify_data env i block r =
     (if checksum_error env i then r\<lparr>errors_found := errors_found r + 1\<rparr> else r) \<and>
   ((\<forall>i. \<not> checksum_error env i) \<longrightarrow> errors_found (memory_test_worker env size_mb) = 0)"
  using verify_data_errors [of env i block r] memory_test_any(4) [of env size_mb]
  by blast

theorem memory_check_reports_nothing_witness:
  "errors_found (memory_test_worker memory_example 100) = 0 \<and>
   errors_found (memory_test_worker (memory_example\<lparr>verify_testing := (\<lambda>i. i < 7)\<rparr>) 100) = 0"
proof -
  have a: "\<forall>i. \<not> checksum_error memory_example i"
    "\<forall>i. \<not> checksum_error (memory_example\<lparr>verify_testing := (\<lambda>i. i < 7)\<rparr>) i"
    by (simp_all add: memory_example_def)
  show ?thesis
    using memory_check_reports_nothing [of memory_example _ _ _ 100]
      memory_check_reports_nothing [of "memory_example\<lparr>verify_testing := (\<lambda>i. i < 7)\<rparr>" _ _ _ 100]
      a
    by blast
qed

section \<open>The disk speed test: phases, progress and callbacks\<close>

lemma chunks_append [simp]: "chunks (xs @ ys) = chunks xs @ chunks ys"
  by (simp add: chunks_def)

lemma callbacks_append [simp]: "callbacks (xs @ ys) = callbacks xs @ callbacks ys"
  by (simp add: callbacks_def)

lemma write_chunk_cases:
  assumes "write_error env i = None" and "int i < n"
  shows "\<exists>r' p. write_chunk env n i r = Inr r' \<and>
           trace r' = trace r @ [WriteChunk i, SetProgress p] @
             (if callback_due n i \<and> disk_callback env then [Callback (Some p) (status r)] else []) \<and>
           0 \<le> p \<and> p \<le> 50 \<and> status r' = status r \<and> progress r' = Some p \<and>
           test_file_size_mb r' = test_file_size_mb r"
proof -
  obtain q where q: "true_div (int i + 1) n = Inr q" "0 \<le> q" "q \<le> 1"
    using true_div_unit [of "int i + 1" n] assms(2) by auto
  have b: "0 \<le> py_int (q * 50)" "py_int (q * 50) \<le> 50"
    using py_int_bounds [of 0 "q * 50" 50] q by simp_all
  show ?thesis
    using assms(1) q(1) b
    by (simp add: write_chunk_def Let_def call_back_def emit_def set_progress_def)
qed

lemma read_chunk_cases:
  assumes "read_error env i = None" and "int i < n"
  shows "\<exists>r' p. read_chunk env n i r = Inr r' \<and>
           trace r' = trace r @ [ReadChunk i, SetProgress p] @
             (if callback_due n i \<and> disk_callback env then [Callback (Some p) (status r)] else []) \<and>
           50 \<le> p \<and> p \<le> 100 \<and> status r' = status r \<and> progress r' = Some p \<and>
           test_file_size_mb r' = test_file_size_mb r"
proof -
  obtain q where q: "true_div (int i + 1) n = Inr q" "0 \<le> q" "q \<le> 1"
    using true_div_unit [of "int i + 1" n] assms(2) by auto
  have b: "50 \<le> py_int (50 + q * 50)" "py_int (50 + q * 50) \<le> 100"
    using py_int_bounds [of 50 "50 + q * 50" 100] q by simp_all
  show ?thesis
    using assms(1) q(1) b
    by (simp add: read_chunk_def Let_def call_back_def emit_def set_progress_def)
qed

lemma write_loop_complete:
  assumes "list_all (write_testing env) is"
    and "list_all (\<lambda>i. write_error env i = None) is"
    and "list_all (\<lambda>i. int i < n) is"
  shows "\<exists>r' t. write_loop env n is r = Inr r' \<and> trace r' = trace r @ t \<and>
           chunks t = map WriteChunk is \<and> list_all (progress_within 0 50) t \<and>
           (\<forall>prev. foldl (due_step n) (Some prev) t \<noteq> None) \<and>
           length (callbacks t) = due_count env n is \<and>
           test_file_size_mb r' = test_file_size_mb r"
  using assms
proof (induction "is" arbitrary: r)
  case Nil
  then show ?case by (simp add: chunks_def callbacks_def due_count_def)
next
  case (Cons i "is")
  let ?cb = "\<lambda>p. if callback_due n i \<and> disk_callback env then [Callback (Some p) (status r)] else []"
  obtain r1 p where r1: "write_chunk env n i r = Inr r1"
    "trace r1 = trace r @ [WriteChunk i, SetProgress p] @ ?cb p"
    "0 \<le> p" "p \<le> 50" "test_file_size_mb r1 = test_file_size_mb r"
    using write_chunk_cases [of env i n r] Cons.prems by auto
  obtain r' t where r': "write_loop env n is r1 = Inr r'" "trace r' = trace r1 @ t"
    "chunks t = map WriteChunk is" "list_all (progress_within 0 50) t"
    "\<forall>prev. foldl (due_step n) (Some prev) t \<noteq> None"
    "length (callbacks t) = due_count env n is"
    "test_file_size_mb r' = test_file_size_mb r1"
    using Cons.IH [of r1] Cons.prems by auto
  let ?t = "[WriteChunk i, SetProgress p] @ ?cb p @ t"
  have "write_loop env n (i # is) r = Inr r'"
    using Cons.prems r1(1) r'(1) by simp
  moreover have "trace r' = trace r @ ?t"
    using r1(2) r'(2) by simp
  moreover have "chunks ?t = map WriteChunk (i # is)"
    using r'(3) by (simp add: chunks_def)
  moreover have "list_all (progress_within 0 50) ?t"
    using r'(4) r1(3,4) by simp
  moreover have "\<forall>prev. foldl (due_step n) (Some prev) ?t \<noteq> None"
    using r'(5) by simp
  moreover have "length (callbacks ?t) = due_count env n (i # is)"
    using r'(6) by (simp add: callbacks_def due_count_def)
  moreover have "test_file_size_mb r' = test_file_size_mb r"
    using r1(5) r'(7) by simp
  ultimately show ?case
    by (intro exI [of _ r'] exI [of _ ?t]) simp
qed

lemma read_loop_complete:
  assumes "list_all (read_testing env) is"
    and "list_all (\<lambda>i. read_error env i = None) is"
    and "list_all (\<lambda>i. int i < n) is"
  shows "\<exists>r' t. read_loop env n is r = Inr r' \<and> trace r' = trace r @ t \<and>
           chunks t = map ReadChunk is \<and> list_all (progress_within 50 100) t \<and>
           (\<forall>prev. foldl (due_step n) (Some prev) t \<noteq> None) \<and>
           length (callbacks t) = due_count env n is \<and>
           test_file_size_mb r' = test_file_size_mb r"
  using assms
proof (induction "is" arbitrary: r)
  case Nil
  then show ?case by (simp add: chunks_def callbacks_def due_count_def)
next
  case (Cons i "is")
  let ?cb = "\<lambda>p. if callback_due n i \<and> disk_callback env then [Callback (Some p) (status r)] else []"
  obtain r1 p where r1: "read_chunk env n i r = Inr r1"
    "trace r1 = trace r @ [ReadChunk i, SetProgress p] @ ?cb p"
    "50 \<le> p" "p \<le> 100" "test_file_size_mb r1 = test_file_size_mb r"
    using read_chunk_cases [of env i n r] Cons.prems by auto
  obtain r' t where r': "read_loop env n is r1 = Inr r'" "trace r' = trace r1 @ t"
    "chunks t = map ReadChunk is" "list_all (progress_within 50 100) t"
    "\<forall>prev. foldl (due_step n) (Some prev) t \<noteq> None"
    "length (callbacks t) = due_count env n is"
    "test_file_size_mb r' = test_file_size_mb r1"
    using Cons.IH [of r1] Cons.prems by auto
  let ?t = "[ReadChunk i, SetProgress p] @ ?cb p @ t"
  have "read_loop env n (i # is) r = Inr r'"
    using Cons.prems r1(1) r'(1) by simp
  moreover have "trace r' = trace r @ ?t"
    using r1(2) r'(2) by simp
  moreover have "chunks ?t = map ReadChunk (i # is)"
    using r'(3) by (simp add: chunks_def)
  moreover have "list_all (progress_within 50 100) ?t"
    using r'(4) r1(3,4) by simp
  moreover have "\<forall>prev. foldl (due_step n) (Some prev) ?t \<noteq> None"
    using r'(5) by simp
  moreover have "length (callbacks ?t) = due_count env n (i # is)"
    using r'(6) by (simp add: callbacks_def due_count_def)
  moreover have "test_file_size_mb r' = test_file_size_mb r"
    using r1(5) r'(7) by simp
  ultimately show ?case
    by (intro exI [of _ r'] exI [of _ ?t]) simp
qed

lemma disk_example_complete:
  "tempfile_error (disk_example None) = None"
  "open_write_error (disk_example None) = None"
  "open_read_error (disk_example None) = None"
  "not_stopped (write_testing (disk_example None)) n"
  "not_stopped (read_testing (disk_example None)) n"
  "list_all (\<lambda>i. write_error (disk_example None) i = None) [0..<nat n]"
  "list_all (\<lambda>i. read_error (disk_example None) i = None) [0..<nat n]"
  by (simp_all add: not_stopped_def disk_example_def list_all_iff)

text \<open>
  C8: in every complete run of the disk speed test (never stopped, no input/output
  error), all \<open>test_file_size_mb\<close> chunks are written before the first chunk is read;
  the progress is set within 0 and 50 while writing and within 50 and 100 while reading;
  and in each phase the callback is invoked only right after a chunk that is a fifth one
  or the last one, once for each such chunk when a callback was given.
\<close>

theorem disk_test_complete_run:
  assumes "tempfile_error env = None"
    and "open_write_error env = None" and "open_read_error env = None"
    and "not_stopped (write_testing env) size_mb"
    and "not_stopped (read_testing env) size_mb"
    and "list_all (\<lambda>i. write_error env i = None) [0..<nat size_mb]"
    and "list_all (\<lambda>i. read_error env i = None) [0..<nat size_mb]"
  shows "\<exists>rw rr.
           write_phase env (disk_initial size_mb) = Inr rw \<and>
           read_phase env rw = Inr rr \<and>
           disk_test_worker env size_mb = disk_finish env rr \<and>
           chunks (trace rw) = map WriteChunk [0..<nat size_mb] \<and>
           chunks (added rw rr) = map ReadChunk [0..<nat size_mb] \<and>
           chunks (trace (disk_test_worker env size_mb)) =
             map WriteChunk [0..<nat size_mb] @ map ReadChunk [0..<nat size_mb] \<and>
           list_all (progress_within 0 50) (trace rw) \<and>
           list_all (progress_within 50 100) (added rw rr) \<and>
           callbacks_only_when_due size_mb (trace rw) \<and>
           callbacks_only_when_due size_mb (added rw rr) \<and>
           length (callbacks (trace rw)) = due_count env size_mb [0..<nat size_mb] \<and>
           length (callbacks (added rw rr)) = due_count env size_mb [0..<nat size_mb]"
proof -
  let ?is = "[0..<nat size_mb]"
  let ?r0 = "disk_initial size_mb"
  have n0: "test_file_size_mb ?r0 = size_mb" "trace ?r0 = []"
    by (simp_all add: disk_initial_def)
  obtain r1 t where r1: "write_loop env size_mb ?is ?r0 = Inr r1" "trace r1 = trace ?r0 @ t"
    "chunks t = map WriteChunk ?is" "list_all (progress_within 0 50) t"
    "\<forall>prev. foldl (due_step size_mb) (Some prev) t \<noteq> None"
    "length (callbacks t) = due_count env size_mb ?is"
    "test_file_size_mb r1 = test_file_size_mb ?r0"
    using write_loop_complete [of env ?is size_mb ?r0] assms(4,6) upt_below [of size_mb]
    by (auto simp: not_stopped_def)
  define rw where "rw = r1\<lparr>write_speed_mbps :=
      speed_mbps (test_file_size_mb r1) (write_end env - write_start env)\<rparr>"
  have rw: "write_phase env ?r0 = Inr rw" "trace rw = t" "test_file_size_mb rw = size_mb"
    using r1(1,2,7) assms(2) n0 by (simp_all add: write_phase_def rw_def)
  obtain r2 u where r2: "read_loop env size_mb ?is rw = Inr r2" "trace r2 = trace rw @ u"
    "chunks u = map ReadChunk ?is" "list_all (progress_within 50 100) u"
    "\<forall>prev. foldl (due_step size_mb) (Some prev) u \<noteq> None"
    "length (callbacks u) = due_count env size_mb ?is"
    "test_file_size_mb r2 = test_file_size_mb rw"
    using read_loop_complete [of env ?is size_mb rw] assms(5,7) upt_below [of size_mb]
    by (auto simp: not_stopped_def)
  define rr where "rr = r2\<lparr>read_speed_mbps :=
      speed_mbps (test_file_size_mb r2) (read_end env - read_start env)\<rparr>"
  have rr: "read_phase env rw = Inr rr" "trace rr = trace rw @ u"
    using r2(1,2) assms(3) rw(3) by (simp_all add: read_phase_def rr_def)
  have w: "disk_test_worker env size_mb = disk_finish env rr"
    using assms(1) rw(1) rr(1) by (simp add: disk_test_worker_def)
  have f: "chunks (trace (disk_finish env rr)) = chunks (trace rr)"
    by (simp add: disk_finish_def Let_def trace_call_back chunks_def)
  have "chunks (trace (disk_test_worker env size_mb)) = map WriteChunk ?is @ map ReadChunk ?is"
    using r1(3) r2(3) rw(2) rr(2) by (simp add: w f)
  moreover have "chunks (trace rw) = map WriteChunk ?is"
    "list_all (progress_within 0 50) (trace rw)"
    "callbacks_only_when_due size_mb (trace rw)"
    "length (callbacks (trace rw)) = due_count env size_mb ?is"
    using r1(3-6) rw(2) by (simp_all add: callbacks_only_when_due_def)
  moreover have "chunks (added rw rr) = map ReadChunk ?is"
    "list_all (progress_within 50 100) (added rw rr)"
    "callbacks_only_when_due size_mb (added rw rr)"
    "length (callbacks (added rw rr)) = due_count env size_mb ?is"
    using r2(3-6) added_append [OF rr(2)] by (simp_all add: callbacks_only_when_due_def)
  ultimately show ?thesis
    using rw(1) rr(1) w by blast
qed

theorem disk_test_complete_run_witness:
  "chunks (trace (disk_test_worker (disk_example None) 7)) =
     map WriteChunk [0..<7] @ map ReadChunk [0..<7] \<and>
   callbacks (trace (disk_test_worker (disk_example None) 7)) =
     [Callback (Some 35) Running, Callback (Some 50) Running,
      Callback (Some 85) Running, Callback (Some 100) Running,
      Callback (Some 100) Completed]"
proof -
  have c: "callbacks (trace (disk_test_worker (disk_example None) 7)) =
     [Callback (Some 35) Running, Callback (Some 50) Running,
      Callback (Some 85) Running, Callback (Some 100) Running,
      Callback (Some 100) Completed]"
    by code_simp
  have n: "[0..<nat 7] = [0..<7]"
    by simp
  show ?thesis
    using disk_test_complete_run [OF disk_example_complete, of 7] c
    unfolding n by blast
qed

lemma write_chunk_any:
  assumes "int i < n" and "while_running r"
  shows "while_running (outcome_state (write_chunk env n i r))"
proof -
  obtain q where q: "true_div (int i + 1) n = Inr q" "0 \<le> q" "q \<le> 1"
    using true_div_unit [of "int i + 1" n] assms(1) by auto
  have b: "0 \<le> py_int (q * 50)" "py_int (q * 50) \<le> 100"
    using py_int_bounds [of 0 "q * 50" 50] q by simp_all
  have "while_running (emit (WriteChunk i) r)"
    using assms(2) by (simp add: while_running_emit)
  then have w: "while_running (set_progress (py_int (q * 50)) (emit (WriteChunk i) r))"
    using b by (rule while_running_set_progress)
  then have "while_running (call_back (disk_callback env)
      (set_progress (py_int (q * 50)) (emit (WriteChunk i) r)))"
    by (rule while_running_call_back)
  with w show ?thesis
    using assms(2) q(1) by (simp add: write_chunk_def Let_def split: option.split)
qed

lemma read_chunk_any:
  assumes "int i < n" and "while_running r"
  shows "while_running (outcome_state (read_chunk env n i r))"
proof -
  obtain q where q: "true_div (int i + 1) n = Inr q" "0 \<le> q" "q \<le> 1"
    using true_div_unit [of "int i + 1" n] assms(1) by auto
  have b: "0 \<le> py_int (50 + q * 50)" "py_int (50 + q * 50) \<le> 100"
    using py_int_bounds [of 50 "50 + q * 50" 100] q by simp_all
  have "while_running (emit (ReadChunk i) r)"
    using assms(2) by (simp add: while_running_emit)
  then have w: "while_running (set_progress (py_int (50 + q * 50)) (emit (ReadChunk i) r))"
    using b by (rule while_running_set_progress)
  then have "while_running (call_back (disk_callback env)
      (set_progress (py_int (50 + q * 50)) (emit (ReadChunk i) r)))"
    by (rule while_running_call_back)
  with w show ?thesis
    using assms(2) q(1) by (simp add: read_chunk_def Let_def split: option.split)
qed

lemma write_loop_any:
  assumes "list_all (\<lambda>i. int i < n) is" and "while_running r"
  shows "while_running (outcome_state (write_loop env n is r))"
  using assms
proof (induction "is" arbitrary: r)
  case Nil
  then show ?case by simp
next
  case (Cons i "is")
  show ?case
  proof (cases "write_testing env i")
    case False
    with Cons.prems show ?thesis by simp
  next
    case True
    have a: "while_running (outcome_state (write_chunk env n i r))"
      using write_chunk_any [of i n r env] Cons.prems by simp
    show ?thesis
    proof (cases "write_chunk env n i r")
      case (Inl raised)
      with a True show ?thesis by (cases raised) simp
    next
      case (Inr r1)
      with a True Cons.IH [of r1] Cons.prems show ?thesis by simp
    qed
  qed
qed

lemma read_loop_any:
  assumes "list_all (\<lambda>i. int i < n) is" and "while_running r"
  shows "while_running (outcome_state (read_loop env n is r))"
  using assms
proof (induction "is" arbitrary: r)
  case Nil
  then show ?case by simp
next
  case (Cons i "is")
  show ?case
  proof (cases "read_testing env i")
    case False
    with Cons.prems show ?thesis by simp
  next
    case True
    have a: "while_running (outcome_state (read_chunk env n i r))"
      using read_chunk_any [of i n r env] Cons.prems by simp
    show ?thesis
    proof (cases "read_chunk env n i r")
      case (Inl raised)
      with a True show ?thesis by (cases raised) simp
    next
      case (Inr r1)
      with a True Cons.IH [of r1] Cons.prems show ?thesis by simp
    qed
  qed
qed

lemma write_phase_any:
  assumes "while_running r"
  shows "while_running (outcome_state (write_phase env r))"
proof (cases "open_write_error env")
  case (Some e)
  with assms show ?thesis by (simp add: write_phase_def)
next
  case None
  let ?l = "write_loop env (test_file_size_mb r) [0..<nat (test_file_size_mb r)] r"
  have a: "while_running (outcome_state ?l)"
    using write_loop_any [OF upt_below assms] .
  show ?thesis
  proof (cases ?l)
    case (Inl raised)
    with a None show ?thesis by (cases raised) (simp add: write_phase_def)
  next
    case (Inr r1)
    with a have "while_running r1" by simp
    then have "while_running (r1\<lparr>write_speed_mbps :=
        speed_mbps (test_file_size_mb r1) (write_end env - write_start env)\<rparr>)"
      by (rule while_running_cong) simp_all
    with Inr None show ?thesis by (simp add: write_phase_def)
  qed
qed

lemma read_phase_any:
  assumes "while_running r"
  shows "while_running (outcome_state (read_phase env r))"
proof (cases "open_read_error env")
  case (Some e)
  with assms show ?thesis by (simp add: read_phase_def)
next
  case None
  let ?l = "read_loop env (test_file_size_mb r) [0..<nat (test_file_size_mb r)] r"
  have a: "while_running (outcome_state ?l)"
    using read_loop_any [OF upt_below assms] .
  show ?thesis
  proof (cases ?l)
    case (Inl raised)
    with a None show ?thesis by (cases raised) (simp add: read_phase_def)
  next
    case (Inr r1)
    with a have "while_running r1" by simp
    then have "while_running (r1\<lparr>read_speed_mbps :=
        speed_mbps (test_file_size_mb r1) (read_end env - read_start env)\<rparr>)"
      by (rule while_running_cong) simp_all
    with Inr None show ?thesis by (simp add: read_phase_def)
  qed
qed

lemma disk_finish_fields:
  "trace (disk_finish env r) =
     trace r @ [SetStatus (final_status (disk_end_testing env)), SetProgress 100, ClearTesting] @
     (if disk_callback env then [Callback (Some 100) (final_status (disk_end_testing env))] else [])"
  "progress (disk_finish env r) = Some 100"
  "status (disk_finish env r) = final_status (disk_end_testing env)"
  by (simp_all add: disk_finish_def Let_def call_back_def emit_def set_progress_def
      set_status_def)

lemma disk_handler_fields:
  "trace (disk_handler env (e, r)) =
     trace r @ [SetStatus Error, ClearTesting] @
     (if disk_callback env then [Callback (progress r) Error] else [])"
  "progress (disk_handler env (e, r)) = progress r"
  "status (disk_handler env (e, r)) = Error"
  by (simp_all add: disk_handler_def Let_def call_back_def emit_def set_status_def)

lemma disk_handler_any:
  assumes "while_running (outcome_state (Inl raised))"
  shows "progress_in_range (disk_handler env raised) \<and>
         full_when_finished (disk_handler env raised)"
proof -
  obtain e r where raised: "raised = (e, r)"
    by (cases raised)
  have "while_running r"
    using assms raised by simp
  from handler_leaves [where initial = None, OF this disk_handler_fields] show ?thesis
    by (simp add: raised)
qed

lemma disk_test_any:
  "progress_in_range (disk_test_worker env n) \<and> full_when_finished (disk_test_worker env n)"
proof (cases "tempfile_error env")
  case (Some e)
  have "while_running (disk_initial n)"
    by (simp add: while_running_def progress_in_range_def disk_initial_def)
  then have "while_running (outcome_state (Inl (e, disk_initial n)))"
    by simp
  from disk_handler_any [OF this] Some show ?thesis
    by (simp add: disk_test_worker_def)
next
  case None
  have i: "while_running (disk_initial n)"
    by (simp add: while_running_def progress_in_range_def disk_initial_def)
  show ?thesis
  proof (cases "write_phase env (disk_initial n)")
    case (Inl raised)
    with write_phase_any [OF i, of env] have "while_running (outcome_state (Inl raised))"
      by simp
    from disk_handler_any [OF this] None Inl show ?thesis
      by (simp add: disk_test_worker_def)
  next
    case (Inr rw)
    with write_phase_any [OF i, of env] have w: "while_running rw"
      by simp
    show ?thesis
    proof (cases "read_phase env rw")
      case (Inl raised)
      with read_phase_any [OF w, of env] have "while_running (outcome_state (Inl raised))"
        by simp
      from disk_handler_any [OF this] None Inl \<open>write_phase env (disk_initial n) = Inr rw\<close>
      show ?thesis
        by (simp add: disk_test_worker_def)
    next
      case (Inr rr)
      with read_phase_any [OF w, of env] have "while_running rr"
        by simp
      from finish_status_first [OF this disk_finish_fields] None Inr
        \<open>write_phase env (disk_initial n) = Inr rw\<close>
      show ?thesis
        by (simp add: disk_test_worker_def)
    qed
  qed
qed

section \<open>Progress of the four workers\<close>

lemma while_running_throttled:
  "while_running r \<Longrightarrow> while_running (throttled_callback c t r)"
proof -
  assume w: "while_running r"
  have "while_running ((call_back True r)\<lparr>last_callback_time := t\<rparr>)"
    by (rule while_running_cong [OF while_running_call_back [OF w, of True]]) simp_all
  with w show ?thesis
    by (simp add: throttled_callback_def)
qed

lemma charging_iteration_any:
  assumes "check < 30" and "while_running r"
  shows "while_running (charging_iteration env check r)"
proof -
  have p: "while_running (emit (Poll check) r)"
    using assms(2) by (simp add: while_running_emit)
  show ?thesis
  proof (cases "loop_sensor env check")
    case (Battery b)
    let ?q = "of_int (int check + 1) / 30 :: rat"
    have "0 \<le> ?q" "?q \<le> 1"
      using assms(1) by simp_all
    then have bounds: "0 \<le> py_int (?q * 100)" "py_int (?q * 100) \<le> 100"
      using py_int_bounds [of 0 "?q * 100" 100] by simp_all
    let ?r1 = "emit (Sample (power_plugged b) (percent b)) (emit (Poll check) r)"
    let ?r2 = "detect_charging_change (loop_datetime env check) (power_plugged b) (percent b) ?r1"
    let ?r3 = "track_level_change (loop_datetime env check) (power_plugged b) (percent b) ?r2"
    let ?r4 = "set_progress (py_int (?q * 100)) ?r3"
    let ?r5 = "?r4\<lparr> current_charging_state := Some (power_plugged b),
                     current_battery_level := Some (percent b) \<rparr>"
    have "while_running ?r1"
      using p by (simp add: while_running_emit)
    then have "while_running ?r2"
      by (rule while_running_cong) (simp_all add: detect_charging_change_def)
    then have "while_running ?r3"
      by (rule while_running_cong) (simp_all add: track_level_change_def)
    then have "while_running ?r4"
      using bounds by (rule while_running_set_progress)
    then have "while_running ?r5"
      by (rule while_running_cong) simp_all
    then have "while_running (sleep (of_int check_interval)
        (throttled_callback (ch_callback env) (loop_time env check) ?r5))"
      by (intro while_running_sleep while_running_throttled)
    then show ?thesis
      using Battery by (simp add: charging_iteration_def Let_def true_div_check)
  next
    case NoBattery
    have "while_running ((emit (Poll check) r)\<lparr>errors := errors (emit (Poll check) r) @
        [''Error during monitoring: '' @
              [CHR 0x27] @ ''NoneType'' @ [CHR 0x27] @ '' object has no attribute '' @
              [CHR 0x27] @ ''power_plugged'' @ [CHR 0x27]]\<rparr>)"
      by (rule while_running_cong [OF p]) simp_all
    then show ?thesis
      using NoBattery by (simp add: charging_iteration_def Let_def)
  next
    case (SensorError e)
    have "while_running ((emit (Poll check) r)\<lparr>errors := errors (emit (Poll check) r) @
        [''Error during monitoring: '' @ e]\<rparr>)"
      by (rule while_running_cong [OF p]) simp_all
    then show ?thesis
      using SensorError by (simp add: charging_iteration_def Let_def)
  qed
qed

lemma charging_loop_any:
  assumes "list_all (\<lambda>check. check < 30) checks" and "while_running r"
  shows "while_running (charging_loop env checks r)"
  using assms
proof (induction checks arbitrary: r)
  case Nil
  then show ?case by simp
next
  case (Cons check checks)
  then show ?case
    by (simp add: charging_iteration_any)
qed

lemma while_running_start: "while_running (charging_start env b)"
  by (simp add: while_running_def progress_in_range_def charging_start_def Let_def
      charging_initial_def call_back_def emit_def)

lemma analyze_fields:
  "trace (analyze_results env r) =
     trace r @ [SetProgress 100, SetStatus (final_status (ch_end_testing env)), ClearTesting] @
     (if ch_callback env then [Callback (Some 100) (final_status (ch_end_testing env))] else [])"
  "progress (analyze_results env r) = Some 100"
  "status (analyze_results env r) = final_status (ch_end_testing env)"
  by (simp_all add: analyze_results_def Let_def call_back_def emit_def set_progress_def
      set_status_def)

lemma charging_test_any:
  "progress_in_range (charging_test_worker env) \<and>
   full_when_finished (charging_test_worker env) \<and>
   (first_sensor env \<noteq> NoBattery \<longrightarrow>
      full_when_status_set (Some 0) (trace (charging_test_worker env)))"
proof (cases "first_sensor env")
  case (Battery b)
  have "while_running (charging_loop env [0..<30] (charging_start env b))"
    by (rule charging_loop_any [OF _ while_running_start]) (simp add: list_all_iff)
  from finish_progress_first [where initial = "Some 0", OF this analyze_fields]
  show ?thesis
    by (simp add: worker_battery [OF Battery])
next
  case NoBattery
  let ?r = "charging_initial\<lparr>errors := errors charging_initial @
      [''No battery detected - this test requires a laptop/device with battery''],
      battery_support := False\<rparr>"
  let ?c = "ch_callback env"
  have w: "while_running ?r"
    by (simp add: while_running_def progress_in_range_def charging_initial_def)
  have t: "trace (charging_test_worker env) =
      trace ?r @ [SetStatus Completed, SetProgress 100, ClearTesting] @
        (if ?c then [Callback (Some 100) Completed] else [])"
    "progress (charging_test_worker env) = Some 100"
    "status (charging_test_worker env) = Completed"
    using NoBattery
    by (simp_all add: charging_test_worker_def Let_def call_back_def emit_def set_progress_def
        set_status_def)
  from finish_status_first [OF w t] NoBattery show ?thesis
    by simp
next
  case (SensorError e)
  let ?r = "charging_initial\<lparr>errors := errors charging_initial @
      [''Error detecting battery: '' @ e], battery_support := False\<rparr>"
  let ?c = "ch_callback env"
  have w: "while_running ?r"
    by (simp add: while_running_def progress_in_range_def charging_initial_def)
  have t: "trace (charging_test_worker env) =
      trace ?r @ [SetStatus Error, ClearTesting] @
        (if ?c then [Callback (progress ?r) Error] else [])"
    "progress (charging_test_worker env) = progress ?r"
    "status (charging_test_worker env) = Error"
    using SensorError
    by (simp_all add: charging_test_worker_def Let_def call_back_def emit_def set_status_def)
  from handler_leaves [where initial = "Some 0", OF w t] show ?thesis
    by simp
qed

lemma while_running_temperature:
  "while_running r \<Longrightarrow> while_running (record_temperature env k r)"
  by (erule while_running_cong)
    (simp_all add: record_temperature_def split: temps_result.split list.split)

lemma duration_temperature [simp]: "duration (record_temperature env k r) = duration r"
  by (simp add: record_temperature_def split: temps_result.split list.split)

lemma monitor_pass_duration:
  "monitor_pass env k r = Inr r' \<Longrightarrow> duration r' = duration r"
  by (auto simp: monitor_pass_def Let_def call_back_def emit_def sleep_def set_progress_def
      split: if_splits)

lemma monitor_pass_any:
  assumes "start_time env \<le> elapsed_clock env k" and "0 < duration r" and "while_running r"
  shows "\<exists>r'. monitor_pass env k r = Inr r' \<and> while_running r'"
proof -
  let ?q = "(elapsed_clock env k - start_time env) / duration r * 100"
  let ?p = "min (py_int ?q) 100"
  have "0 \<le> ?q"
    using assms(1,2) by simp
  then have b: "0 \<le> ?p" "?p \<le> 100"
    by (simp_all add: py_int_def)
  let ?r1 = "set_progress ?p r"
  let ?r2 = "?r1\<lparr>cpu_usage_samples := cpu_usage_samples ?r1 @
      [\<lparr> us_time = sample_time env k - start_time env, us_usage = cpu_percent env k \<rparr>]\<rparr>"
  let ?r3 = "?r2\<lparr>total_usage := total_usage ?r2 + cpu_percent env k,
      sample_count := sample_count ?r2 + 1\<rparr>"
  let ?r4 = "if cpu_percent env k > max_usage ?r3 then ?r3\<lparr>max_usage := cpu_percent env k\<rparr>
      else ?r3"
  have "while_running ?r1"
    using assms(3) b by (rule while_running_set_progress)
  then have "while_running ?r2"
    by (rule while_running_cong) simp_all
  then have "while_running ?r3"
    by (rule while_running_cong) simp_all
  then have "while_running ?r4"
    by (rule while_running_cong) simp_all
  then have w: "while_running (sleep 1 (call_back (cpu_callback env)
      (record_temperature env k ?r4)))"
    by (intro while_running_sleep while_running_call_back while_running_temperature)
  have "monitor_pass env k r = Inr (sleep 1 (call_back (cpu_callback env)
      (record_temperature env k ?r4)))"
    using assms(2) by (simp add: monitor_pass_def Let_def)
  with w show ?thesis
    by simp
qed

lemma monitor_loop_any:
  assumes "\<forall>k. start_time env \<le> cond_time env k \<and> start_time env \<le> elapsed_clock env k"
    and "while_running r"
  shows "while_running (snd (monitor_loop env fuel k r))"
  using assms(2)
proof (induction fuel arbitrary: k r)
  case 0
  then show ?case by simp
next
  case (Suc fuel)
  show ?case
  proof (cases "cond_time env k - start_time env < duration r \<and> cpu_testing env k")
    case False
    with Suc.prems show ?thesis by auto
  next
    case True
    have "0 \<le> cond_time env k - start_time env"
      using assms(1) by simp
    with True have d: "0 < duration r"
      by linarith
    obtain r' where r': "monitor_pass env k r = Inr r'" "while_running r'"
      using monitor_pass_any [of env k r] assms(1) d Suc.prems by auto
    show ?thesis
      using True r' Suc.IH [of r' "Suc k"] by simp
  qed
qed

lemma monitor_finish_fields:
  "trace (monitor_finish env r) =
     trace r @ [SetProgress 100, SetStatus (final_status (cpu_end_testing env)), ClearTesting] @
     (if cpu_callback env then [Callback (Some 100) (final_status (cpu_end_testing env))] else [])"
  "progress (monitor_finish env r) = Some 100"
  "status (monitor_finish env r) = final_status (cpu_end_testing env)"
  by (simp_all add: monitor_finish_def Let_def call_back_def emit_def set_progress_def
      set_status_def)

lemma monitor_worker_any:
  assumes "\<forall>k. start_time env \<le> cond_time env k \<and> start_time env \<le> elapsed_clock env k"
  shows "progress_in_range (snd (monitor_worker env fuel d)) \<and>
         full_when_finished (snd (monitor_worker env fuel d)) \<and>
         full_when_status_set None (trace (snd (monitor_worker env fuel d)))"
proof -
  have i: "while_running (cpu_initial d)"
    by (simp add: while_running_def progress_in_range_def cpu_initial_def)
  obtain x r where l: "monitor_loop env fuel 0 (cpu_initial d) = (x, r)"
    by (cases "monitor_loop env fuel 0 (cpu_initial d)")
  have w: "while_running r"
    using monitor_loop_any [OF assms i, of fuel 0] l by simp
  show ?thesis
  proof (cases x)
    case Exited
    from finish_progress_first [where initial = None, OF w monitor_finish_fields] l Exited
    show ?thesis
      by (simp add: monitor_worker_def)
  next
    case (Raised e)
    from while_running_results [OF w, of None] l Raised show ?thesis
      by (simp add: monitor_worker_def)
  next
    case OutOfFuel
    from while_running_results [OF w, of None] l OutOfFuel show ?thesis
      by (simp add: monitor_worker_def)
  qed
qed

text \<open>
  When the clock moves at least one second with every pass (each pass sleeps a second),
  the loop ends within the fuel of one pass more than \<open>duration\<close> seconds.
\<close>

lemma monitor_loop_ends:
  assumes "\<forall>k. start_time env + of_nat k \<le> cond_time env k"
    and "nat \<lceil>duration r\<rceil> < fuel + k" and "0 < fuel"
  shows "fst (monitor_loop env fuel k r) \<noteq> OutOfFuel"
  using assms(2,3)
proof (induction fuel arbitrary: k r)
  case 0
  then show ?case by simp
next
  case (Suc fuel)
  show ?case
  proof (cases "cond_time env k - start_time env < duration r \<and> cpu_testing env k")
    case False
    then show ?thesis by auto
  next
    case True
    have "of_nat k \<le> cond_time env k - start_time env"
      using assms(1) [rule_format, of k] by simp
    with True have "of_nat k < duration r"
      by linarith
    then have "int k < \<lceil>duration r\<rceil>"
      by (simp add: less_ceiling_iff)
    then have k: "Suc k \<le> nat \<lceil>duration r\<rceil>"
      by linarith
    show ?thesis
    proof (cases "monitor_pass env k r")
      case (Inl e)
      with True show ?thesis by simp
    next
      case (Inr r')
      have d: "duration r' = duration r"
        using monitor_pass_duration [OF Inr] .
      have "fst (monitor_loop env fuel (Suc k) r') \<noteq> OutOfFuel"
        using Suc.IH [of r' "Suc k"] Suc.prems k d by simp
      with True Inr show ?thesis by simp
    qed
  qed
qed

lemma monitor_worker_returns:
  assumes "\<forall>k. start_time env + of_nat k \<le> cond_time env k" and "nat \<lceil>d\<rceil> < fuel"
  shows "fst (monitor_worker env fuel d) \<noteq> OutOfFuel"
proof -
  have "fst (monitor_loop env fuel 0 (cpu_initial d)) \<noteq> OutOfFuel"
    using monitor_loop_ends [OF assms(1), of "cpu_initial d" fuel 0] assms(2)
    by (simp add: cpu_initial_def)
  then show ?thesis
    by (cases "monitor_loop env fuel 0 (cpu_initial d)")
      (auto simp: monitor_worker_def split: loop_exit.split)
qed

lemma memory_complete_status:
  assumes "not_stopped (alloc_testing env) size_mb"
    and "not_stopped (verify_testing env) size_mb"
    and "list_all (\<lambda>i. alloc_error env i = None) [0..<nat size_mb]"
  shows "status (memory_test_worker env size_mb) = final_status (mem_end_testing env)"
proof -
  let ?is = "[0..<nat size_mb]"
  obtain ra where ra: "allocation_phase env size_mb = Inr ra"
    "memory_blocks ra = memory_blocks (memory_initial size_mb) @
       map (\<lambda>i. map (getrandbits env i) [0..<block_size]) ?is"
    using allocate_loop_complete [of env ?is size_mb "memory_initial size_mb"] assms(1,3)
      upt_below [of size_mb]
    by (auto simp: allocation_phase_def not_stopped_def)
  have len: "length (memory_blocks ra) = nat size_mb"
    using ra(2) by (simp add: memory_initial_def)
  have idx: "map fst (enumerate 0 (memory_blocks ra)) = ?is"
    by (simp add: len)
  obtain rv where rv: "verification_phase env ra = Inr rv"
    using verify_loop_complete [of env "enumerate 0 (memory_blocks ra)" ra] assms(2)
    unfolding idx verification_phase_def
    by (auto simp: not_stopped_def len list_all_iff)
  show ?thesis
    using ra(1) rv by (simp add: memory_test_worker_def memory_finish_fields)
qed

text \<open>
  What holds of the monitor under any clock: its loop writes no status and its callbacks
  show the status \<open>Running\<close>.
\<close>

lemma temperature_fields [simp]:
  "trace (record_temperature env k r) = trace r"
  "status (record_temperature env k r) = status r"
  "progress (record_temperature env k r) = progress r"
  by (simp_all add: record_temperature_def split: temps_result.split list.split)

lemma monitor_pass_quiet:
  assumes "monitor_pass env k r = Inr r'" and "status r = Running"
    and "list_all quiet (trace r)"
  shows "status r' = Running \<and> list_all quiet (trace r')"
proof -
  let ?p = "min (py_int ((elapsed_clock env k - start_time env) / duration r * 100)) 100"
  let ?r1 = "set_progress ?p r"
  let ?r2 = "?r1\<lparr>cpu_usage_samples := cpu_usage_samples ?r1 @
      [\<lparr> us_time = sample_time env k - start_time env, us_usage = cpu_percent env k \<rparr>]\<rparr>"
  let ?r3 = "?r2\<lparr>total_usage := total_usage ?r2 + cpu_percent env k,
      sample_count := sample_count ?r2 + 1\<rparr>"
  let ?r4 = "if cpu_percent env k > max_usage ?r3 then ?r3\<lparr>max_usage := cpu_percent env k\<rparr>
      else ?r3"
  let ?r5 = "record_temperature env k ?r4"
  have r': "r' = sleep 1 (call_back (cpu_callback env) ?r5)"
    using assms(1) by (simp add: monitor_pass_def Let_def split: if_splits)
  have s: "status ?r5 = Running" "trace ?r5 = trace r @ [SetProgress ?p]"
    using assms(2) by simp_all
  show ?thesis
    unfolding r' using s assms(3) by (simp add: trace_call_back)
qed

lemma monitor_loop_quiet:
  assumes "status r = Running" and "list_all quiet (trace r)"
  shows "status (snd (monitor_loop env fuel k r)) = Running \<and>
         list_all quiet (trace (snd (monitor_loop env fuel k r)))"
  using assms
proof (induction fuel arbitrary: k r)
  case 0
  then show ?case by simp
next
  case (Suc fuel)
  show ?case
  proof (cases "cond_time env k - start_time env < duration r \<and> cpu_testing env k")
    case False
    with Suc.prems show ?thesis by auto
  next
    case True
    show ?thesis
    proof (cases "monitor_pass env k r")
      case (Inl e)
      with True Suc.prems show ?thesis by simp
    next
      case (Inr r')
      from monitor_pass_quiet [OF Inr Suc.prems] Suc.IH [of r' "Suc k"] True Inr
      show ?thesis by simp
    qed
  qed
qed

lemma monitor_worker_full:
  "full_when_finished (snd (monitor_worker env fuel d)) \<and>
   full_when_status_set None (trace (snd (monitor_worker env fuel d)))"
proof -
  obtain x r where l: "monitor_loop env fuel 0 (cpu_initial d) = (x, r)"
    by (cases "monitor_loop env fuel 0 (cpu_initial d)")
  have q: "status r = Running" "list_all quiet (trace r)"
    using monitor_loop_quiet [of "cpu_initial d" env fuel 0] l
    by (simp_all add: cpu_initial_def)
  have running: "full_when_finished r \<and> full_when_status_set None (trace r)"
    using q quiet_sees_full [OF q(2)] quiet_status_step [OF q(2), of None True]
    by (simp add: full_when_finished_def full_when_status_set_def finished_def)
  show ?thesis
  proof (cases x)
    case Exited
    obtain p where "foldl status_step (None, True) (trace r) = (p, True)"
      using quiet_status_step [OF q(2), of None True] by (metis prod.collapse)
    then have "full_when_status_set None (trace (monitor_finish env r))"
      by (simp add: monitor_finish_fields full_when_status_set_def)
    moreover have "full_when_finished (monitor_finish env r)"
      using quiet_sees_full [OF q(2)]
      by (simp add: monitor_finish_fields full_when_finished_def)
    ultimately show ?thesis
      using l Exited by (simp add: monitor_worker_def)
  next
    case (Raised e)
    with running l show ?thesis by (simp add: monitor_worker_def)
  next
    case OutOfFuel
    with running l show ?thesis by (simp add: monitor_worker_def)
  qed
qed

text \<open>Without an input/output exception the disk test reaches its last statements.\<close>

lemma write_loop_returns:
  assumes "list_all (\<lambda>i. write_error env i = None) is" and "list_all (\<lambda>i. int i < n) is"
  shows "\<exists>r'. write_loop env n is r = Inr r' \<and> test_file_size_mb r' = test_file_size_mb r"
  using assms
proof (induction "is" arbitrary: r)
  case Nil
  then show ?case by simp
next
  case (Cons i "is")
  show ?case
  proof (cases "write_testing env i")
    case False
    then show ?thesis by simp
  next
    case True
    obtain r1 where r1: "write_chunk env n i r = Inr r1"
      "test_file_size_mb r1 = test_file_size_mb r"
      using write_chunk_cases [of env i n r] Cons.prems by auto
    with True Cons.IH [of r1] Cons.prems show ?thesis by simp
  qed
qed

lemma read_loop_returns:
  assumes "list_all (\<lambda>i. read_error env i = None) is" and "list_all (\<lambda>i. int i < n) is"
  shows "\<exists>r'. read_loop env n is r = Inr r'"
  using assms
proof (induction "is" arbitrary: r)
  case Nil
  then show ?case by simp
next
  case (Cons i "is")
  show ?case
  proof (cases "read_testing env i")
    case False
    then show ?thesis by simp
  next
    case True
    obtain r1 where r1: "read_chunk env n i r = Inr r1"
      using read_chunk_cases [of env i n r] Cons.prems by auto
    with True Cons.IH [of r1] Cons.prems show ?thesis by simp
  qed
qed

lemma disk_test_finishes:
  assumes "tempfile_error env = None"
    and "open_write_error env = None" and "open_read_error env = None"
    and "\<forall>i. write_error env i = None" and "\<forall>i. read_error env i = None"
  shows "\<exists>r. disk_test_worker env n = disk_finish env r"
proof -
  let ?r0 = "disk_initial n"
  have n0: "test_file_size_mb ?r0 = n"
    by (simp add: disk_initial_def)
  have w: "list_all (\<lambda>i. write_error env i = None) [0..<nat n]"
    "list_all (\<lambda>i. read_error env i = None) [0..<nat n]"
    using assms(4,5) by (simp_all add: list_all_iff)
  obtain r1 where r1: "write_loop env n [0..<nat n] ?r0 = Inr r1"
    "test_file_size_mb r1 = n"
    using write_loop_returns [OF w(1) upt_below, of ?r0] n0 by auto
  define rw where "rw = r1\<lparr>write_speed_mbps :=
      speed_mbps (test_file_size_mb r1) (write_end env - write_start env)\<rparr>"
  have rw: "write_phase env ?r0 = Inr rw" "test_file_size_mb rw = n"
    using r1 assms(2) n0 by (simp_all add: write_phase_def rw_def)
  obtain r2 where r2: "read_loop env n [0..<nat n] rw = Inr r2"
    using read_loop_returns [OF w(2) upt_below, of rw] by auto
  have "\<exists>rr. read_phase env rw = Inr rr"
    using r2 assms(3) rw(2) by (simp add: read_phase_def)
  then show ?thesis
    using assms(1) rw(1) by (auto simp: disk_test_worker_def)
qed

text \<open>
  C9, as the claim states it, fails: the disk test writes the status before it sets the
  progress to 100. In this run the test is stopped after three of ten chunks; when the
  status \<open>Stopped\<close> is written the progress is 15.
\<close>

theorem disk_status_before_progress_counterexample:
  "trace (disk_test_worker (disk_example (Some 3)) 10) =
     [WriteChunk 0, SetProgress 5, WriteChunk 1, SetProgress 10, WriteChunk 2, SetProgress 15,
      SetStatus Stopped, SetProgress 100, ClearTesting, Callback (Some 100) Stopped] \<and>
   \<not> full_when_status_set (Some 0) (trace (disk_test_worker (disk_example (Some 3)) 10))"
  by code_simp

text \<open>
  C9, amended. Every value written to \<open>progress\<close> lies between 0 and 100 in every run of
  the memory test, the disk test and the charging test, and in every run of the CPU
  monitor whose clock never reads earlier than its start time. In every run of the four
  workers, under any clock, the progress is exactly 100 once the worker has finished with
  the status \<open>Completed\<close> or \<open>Stopped\<close>, and every callback that shows such a status sees
  it at 100. In the CPU monitor, the memory test and the charging test that found a
  battery or met a sensor error, the progress is 100 already at the moment the status is
  written. The disk test, in a run without an input/output exception, and the charging
  test without a battery write the status first and the progress 100 in the next
  statement, before the flag is cleared and the callback called. The last conjunct is
  about the model only: the monitor's loop ends within the fuel given when its clock
  moves a second with each pass.
\<close>

theorem progress_in_range_and_full_at_end:
  "progress_in_range (memory_test_worker menv size_mb) \<and>
   full_when_finished (memory_test_worker menv size_mb) \<and>
   full_when_status_set None (trace (memory_test_worker menv size_mb)) \<and>
   progress_in_range (disk_test_worker denv file_size_mb) \<and>
   full_when_finished (disk_test_worker denv file_size_mb) \<and>
   (tempfile_error denv = None \<and> open_write_error denv = None \<and>
    open_read_error denv = None \<and> (\<forall>i. write_error denv i = None) \<and>
    (\<forall>i. read_error denv i = None) \<longrightarrow>
      (\<exists>t. trace (disk_test_worker denv file_size_mb) =
         t @ [SetStatus (final_status (disk_end_testing denv)), SetProgress 100, ClearTesting] @
         (if disk_callback denv
          then [Callback (Some 100) (final_status (disk_end_testing denv))] else []))) \<and>
   progress_in_range (charging_test_worker cenv) \<and>
   full_when_finished (charging_test_worker cenv) \<and>
   (first_sensor cenv \<noteq> NoBattery \<longrightarrow>
      full_when_status_set (Some 0) (trace (charging_test_worker cenv))) \<and>
   (first_sensor cenv = NoBattery \<longrightarrow>
      trace (charging_test_worker cenv) =
        [SetStatus Completed, SetProgress 100, ClearTesting] @
        (if ch_callback cenv then [Callback (Some 100) Completed] else [])) \<and>
   ((\<forall>k. start_time env \<le> cond_time env k \<and> start_time env \<le> elapsed_clock env k) \<longrightarrow>
      progress_in_range (snd (monitor_worker env fuel d))) \<and>
   full_when_finished (snd (monitor_worker env fuel d)) \<and>
   full_when_status_set None (trace (snd (monitor_worker env fuel d))) \<and>
   ((\<forall>k. start_time env + of_nat k \<le> cond_time env k) \<and> nat \<lceil>d\<rceil> < fuel \<longrightarrow>
      fst (monitor_worker env fuel d) \<noteq> OutOfFuel)"
proof -
  have disk: "tempfile_error denv = None \<and> open_write_error denv = None \<and>
    open_read_error denv = None \<and> (\<forall>i. write_error denv i = None) \<and>
    (\<forall>i. read_error denv i = None) \<longrightarrow>
      (\<exists>t. trace (disk_test_worker denv file_size_mb) =
         t @ [SetStatus (final_status (disk_end_testing denv)), SetProgress 100, ClearTesting] @
         (if disk_callback denv
          then [Callback (Some 100) (final_status (disk_end_testing denv))] else []))"
  proof
    assume a: "tempfile_error denv = None \<and> open_write_error denv = None \<and>
      open_read_error denv = None \<and> (\<forall>i. write_error denv i = None) \<and>
      (\<forall>i. read_error denv i = None)"
    then obtain r where "disk_test_worker denv file_size_mb = disk_finish denv r"
      using disk_test_finishes [of denv file_size_mb] by blast
    then have "trace (disk_test_worker denv file_size_mb) =
         trace r @ [SetStatus (final_status (disk_end_testing denv)), SetProgress 100,
           ClearTesting] @
         (if disk_callback denv
          then [Callback (Some 100) (final_status (disk_end_testing denv))] else [])"
      by (simp only: disk_finish_fields(1))
    then show "\<exists>t. trace (disk_test_worker denv file_size_mb) =
         t @ [SetStatus (final_status (disk_end_testing denv)), SetProgress 100, ClearTesting] @
         (if disk_callback denv
          then [Callback (Some 100) (final_status (disk_end_testing denv))] else [])"
      by blast
  qed
  have none: "first_sensor cenv = NoBattery \<longrightarrow>
      trace (charging_test_worker cenv) =
        [SetStatus Completed, SetProgress 100, ClearTesting] @
        (if ch_callback cenv then [Callback (Some 100) Completed] else [])"
    by (simp add: charging_test_worker_def Let_def charging_initial_def set_status_def
        set_progress_def emit_def call_back_def)
  show ?thesis
    using memory_test_any(1-3) [of menv size_mb] disk_test_any [of denv file_size_mb] disk
      charging_test_any [of cenv] none monitor_worker_any [of env fuel d]
      monitor_worker_full [of env fuel d] monitor_worker_returns [of env d fuel]
    by blast
qed

theorem progress_in_range_and_full_at_end_witness:
  "status (memory_test_worker memory_example 10) = Completed \<and>
   progress (memory_test_worker memory_example 10) = Some 100 \<and>
   progress_in_range (memory_test_worker memory_example 10) \<and>
   full_when_status_set None (trace (memory_test_worker memory_example 10)) \<and>
   status (disk_test_worker (disk_example (Some 3)) 10) = Stopped \<and>
   progress (disk_test_worker (disk_example (Some 3)) 10) = Some 100 \<and>
   progress_in_range (disk_test_worker (disk_example (Some 3)) 10) \<and>
   (\<exists>t. trace (disk_test_worker (disk_example (Some 3)) 10) =
      t @ [SetStatus Stopped, SetProgress 100, ClearTesting, Callback (Some 100) Stopped]) \<and>
   status (charging_test_worker (charging_example (Battery discharging) steady)) = Completed \<and>
   progress (charging_test_worker (charging_example (Battery discharging) steady)) = Some 100 \<and>
   progress_in_range (charging_test_worker (charging_example (Battery discharging) steady)) \<and>
   full_when_status_set (Some 0)
     (trace (charging_test_worker (charging_example (Battery discharging) steady))) \<and>
   trace (charging_test_worker (charging_example NoBattery steady)) =
     [SetStatus Completed, SetProgress 100, ClearTesting, Callback (Some 100) Completed] \<and>
   monitor_worker cpu_example 10 4 = (Exited, snd (monitor_worker cpu_example 10 4)) \<and>
   status (snd (monitor_worker cpu_example 10 4)) = Completed \<and>
   progress (snd (monitor_worker cpu_example 10 4)) = Some 100 \<and>
   progress_in_range (snd (monitor_worker cpu_example 10 4)) \<and>
   full_when_status_set None (trace (snd (monitor_worker cpu_example 10 4)))"
proof -
  let ?c = "charging_example (Battery discharging) steady"
  let ?n = "charging_example NoBattery steady"
  let ?d = "disk_example (Some 3)"
  note t = progress_in_range_and_full_at_end [of memory_example 10 ?d 10 ?c cpu_example 10 4]
  note u = progress_in_range_and_full_at_end [of memory_example 10 ?d 10 ?n cpu_example 10 4]
  have fin: "finished Completed" "finished Stopped"
    by (simp_all add: finished_def)
  have sm: "status (memory_test_worker memory_example 10) = Completed"
    using memory_complete_status [OF memory_example_complete, of 10]
    by (simp add: memory_example_def final_status_def)
  have "full_when_finished (memory_test_worker memory_example 10)"
    using t by blast
  then have pm: "progress (memory_test_worker memory_example 10) = Some 100"
    using sm fin by (simp add: full_when_finished_def)
  have m: "progress_in_range (memory_test_worker memory_example 10)"
    "full_when_status_set None (trace (memory_test_worker memory_example 10))"
    using t by blast+
  have sd: "status (disk_test_worker ?d 10) = Stopped"
    by code_simp
  have "full_when_finished (disk_test_worker ?d 10)"
    using t by blast
  then have pd: "progress (disk_test_worker ?d 10) = Some 100"
    using sd fin by (simp add: full_when_finished_def)
  have d: "progress_in_range (disk_test_worker ?d 10)"
    using t by blast
  have ok: "tempfile_error ?d = None \<and> open_write_error ?d = None \<and>
    open_read_error ?d = None \<and> (\<forall>i. write_error ?d i = None) \<and>
    (\<forall>i. read_error ?d i = None)"
    "disk_callback ?d" "final_status (disk_end_testing ?d) = Stopped"
    by (simp_all add: disk_example_def final_status_def)
  have "\<exists>t. trace (disk_test_worker ?d 10) =
      t @ [SetStatus (final_status (disk_end_testing ?d)), SetProgress 100, ClearTesting] @
      (if disk_callback ?d
       then [Callback (Some 100) (final_status (disk_end_testing ?d))] else [])"
    using t ok(1) by blast
  then have dt: "\<exists>t. trace (disk_test_worker ?d 10) =
      t @ [SetStatus Stopped, SetProgress 100, ClearTesting, Callback (Some 100) Stopped]"
    by (simp add: ok(2,3))
  have f: "first_sensor ?c \<noteq> NoBattery" "first_sensor ?n = NoBattery" "ch_callback ?n"
    by (simp_all add: charging_example_def)
  have sc: "status (charging_test_worker ?c) = Completed"
    using worker_battery [of ?c discharging]
    by (simp add: analyze_fields charging_example_def final_status_def)
  have "full_when_finished (charging_test_worker ?c)"
    using t by blast
  then have pc: "progress (charging_test_worker ?c) = Some 100"
    using sc fin by (simp add: full_when_finished_def)
  have c: "progress_in_range (charging_test_worker ?c)"
    "full_when_status_set (Some 0) (trace (charging_test_worker ?c))"
    using t f(1) by blast+
  have "trace (charging_test_worker ?n) =
      [SetStatus Completed, SetProgress 100, ClearTesting] @
      (if ch_callback ?n then [Callback (Some 100) Completed] else [])"
    using u f(2) by blast
  then have nb: "trace (charging_test_worker ?n) =
      [SetStatus Completed, SetProgress 100, ClearTesting, Callback (Some 100) Completed]"
    by (simp add: f(3))
  have k: "\<forall>k. start_time cpu_example \<le> cond_time cpu_example k \<and>
      start_time cpu_example \<le> elapsed_clock cpu_example k"
    by (simp add: cpu_example_def)
  have su: "monitor_worker cpu_example 10 4 = (Exited, snd (monitor_worker cpu_example 10 4))"
    "status (snd (monitor_worker cpu_example 10 4)) = Completed"
    by code_simp+
  have "full_when_finished (snd (monitor_worker cpu_example 10 4))"
    using t by blast
  then have pu: "progress (snd (monitor_worker cpu_example 10 4)) = Some 100"
    using su(2) fin by (simp add: full_when_finished_def)
  have cu: "progress_in_range (snd (monitor_worker cpu_example 10 4))"
    "full_when_status_set None (trace (snd (monitor_worker cpu_example 10 4)))"
    using t k by blast+
  show ?thesis
    using sm pm m sd pd d dt sc pc c nb su pu cu by blast
qed

end
